theory Spec2Isabelle
  imports Complex_Main "HOL-Library.Multiset" "HOL-Library.Sublist"
begin

section \<open>Entity model (package model)\<close>

text \<open>
  The records follow the Go structs field by field. Two conventions of the embedding:
  \<^item> \<open>Order\<close> is a \<open>float64\<close> in the source. Here it is the real number that the
    \<open>float64\<close> value stands for: a store is decoded from JSON, whose numbers are finite,
    so every order of a loaded store is a finite \<open>float64\<close> value, and comparing two of
    them is comparing the reals. The arithmetic on order keys (\<open>+ 1.0\<close>, \<open>- 1.0\<close>,
    \<open>(a + b) / 2.0\<close>) is the \<open>float64\<close> arithmetic of the next section: the exact
    result rounded to the nearest \<open>float64\<close> value, or a value that is not finite.
    The sign of zero is not modelled.
  \<^item> \<open>CustomTime\<close> wraps a wall-clock time; the clock is an input (\<open>now\<close>) of every
    operation that reads it.
  The store holds \<open>[]*Task\<close> and \<open>[]*Memo\<close>. Every element is a separate object (the
  store is decoded from JSON, or extended by \<open>AddTask\<close>/\<open>AddMemo\<close> with a fresh
  object), so a pointer into the store is modelled by the index of the element, and a
  write through the pointer by a list update at that index.
\<close>

type_synonym CustomTime = nat

record Task =
  ID :: string
  Title :: string
  Description :: string
  Order :: real
  Done :: bool
  MemoRefs :: "string list"
  CreatedAt :: CustomTime
  UpdatedAt :: CustomTime

text \<open>The fields of \<open>Memo\<close> carry the suffix \<open>_memo\<close> where \<open>Task\<close> has the same name.\<close>

record Memo =
  ID_memo :: string
  Title_memo :: "string option"
  Content :: string
  CreatedAt_memo :: CustomTime
  UpdatedAt_memo :: CustomTime

record Store =
  Version :: int
  Tasks :: "Task list"
  Memos :: "Memo list"

definition NewStore :: Store where
  "NewStore = \<lparr>Version = 1, Tasks = [], Memos = []\<rparr>"

definition NewTask :: "CustomTime \<Rightarrow> string \<Rightarrow> string \<Rightarrow> string \<Rightarrow> string list \<Rightarrow> Task" where
  "NewTask now id' title description memoRefs =
     \<lparr>ID = id', Title = title, Description = description, Order = 0, Done = False,
      MemoRefs = memoRefs, CreatedAt = now, UpdatedAt = now\<rparr>"

definition NewMemo :: "CustomTime \<Rightarrow> string \<Rightarrow> string option \<Rightarrow> string \<Rightarrow> Memo" where
  "NewMemo now id' title content =
     \<lparr>ID_memo = id', Title_memo = title, Content = content,
      CreatedAt_memo = now, UpdatedAt_memo = now\<rparr>"

text \<open>\<open>GetMaxTaskOrder\<close>: the running maximum starts at \<open>0.0\<close>.\<close>

fun GetMaxTaskOrder_loop :: "real \<Rightarrow> Task list \<Rightarrow> real" where
  "GetMaxTaskOrder_loop maxOrder [] = maxOrder"
| "GetMaxTaskOrder_loop maxOrder (task # tasks) =
     GetMaxTaskOrder_loop (if Order task > maxOrder then Order task else maxOrder) tasks"

definition GetMaxTaskOrder :: "Store \<Rightarrow> real" where
  "GetMaxTaskOrder s = GetMaxTaskOrder_loop 0 (Tasks s)"

text \<open>\<open>GetMinTaskOrder\<close>: \<open>0.0\<close> on an empty store, else the running minimum starts at
  the first task's order.\<close>

fun GetMinTaskOrder_loop :: "real \<Rightarrow> Task list \<Rightarrow> real" where
  "GetMinTaskOrder_loop minOrder [] = minOrder"
| "GetMinTaskOrder_loop minOrder (task # tasks) =
     GetMinTaskOrder_loop (if Order task < minOrder then Order task else minOrder) tasks"

definition GetMinTaskOrder :: "Store \<Rightarrow> real" where
  "GetMinTaskOrder s =
     (case Tasks s of
        [] \<Rightarrow> 0
      | task0 # _ \<Rightarrow> GetMinTaskOrder_loop (Order task0) (Tasks s))"

text \<open>The first index of a list whose element satisfies a test: the loops of the source
  that return, or break at, the first hit.\<close>

fun firstIndex :: "('a \<Rightarrow> bool) \<Rightarrow> 'a list \<Rightarrow> nat option" where
  "firstIndex P [] = None"
| "firstIndex P (x # xs) = (if P x then Some 0 else map_option Suc (firstIndex P xs))"

definition FindTaskByID :: "Store \<Rightarrow> string \<Rightarrow> nat option" where
  "FindTaskByID s id' = firstIndex (\<lambda>task. ID task = id') (Tasks s)"

definition FindMemoByID :: "Store \<Rightarrow> string \<Rightarrow> nat option" where
  "FindMemoByID s id' = firstIndex (\<lambda>memo. ID_memo memo = id') (Memos s)"

definition AddTask :: "Store \<Rightarrow> Task \<Rightarrow> Store" where
  "AddTask s task = s\<lparr>Tasks := Tasks s @ [task]\<rparr>"

definition AddMemo :: "Store \<Rightarrow> Memo \<Rightarrow> Store" where
  "AddMemo s memo = s\<lparr>Memos := Memos s @ [memo]\<rparr>"

section \<open>The arithmetic of float64\<close>

text \<open>
  A finite \<open>float64\<close> value is \<open>m * 2^e\<close> with an integer \<open>m\<close> of magnitude below
  \<open>2^53\<close> and \<open>-1074 \<le> e \<le> 971\<close>. In units of \<open>2^-1074\<close> (the constant \<open>scale64\<close>
  is the number of units in \<open>1\<close>) it is \<open>m * 2^k\<close> with \<open>0 \<le> k \<le> 2045\<close>.
  Every arithmetic operation of Go on \<open>float64\<close> yields the exact result rounded to the
  nearest value, a tie going to the value with the even \<open>m\<close> (IEEE 754); a result that
  rounds to magnitude \<open>2^1024\<close> or more is an infinity.
\<close>

text \<open>The integer nearest to \<open>z\<close>, the even one of two that are equally near.\<close>

definition roundHalfEven :: "real \<Rightarrow> int" where
  "roundHalfEven z =
     (let f = \<lfloor>z\<rfloor>; r = z - of_int f
      in if r < 1 / 2 then f else if r > 1 / 2 then f + 1 else if even f then f else f + 1)"

definition scale64 :: real where
  "scale64 = 2 ^ 1074"

text \<open>The spacing of the \<open>float64\<close> values around \<open>x\<close> is \<open>2^k\<close> units for the least
  \<open>k\<close> with \<open>\<bar>x\<bar> < 2^(k + 53)\<close> units, and \<open>2^2045\<close> units from there on. The search
  takes \<open>s\<close>, the magnitude of \<open>x\<close> in units.\<close>

fun quantumFrom :: "nat \<Rightarrow> nat \<Rightarrow> real \<Rightarrow> nat" where
  "quantumFrom 0 k s = k"
| "quantumFrom (Suc n) k s = (if s < 2 ^ (k + 53) then k else quantumFrom n (Suc k) s)"

definition quantum :: "real \<Rightarrow> nat" where
  "quantum x = quantumFrom 2045 0 (\<bar>x\<bar> * scale64)"

text \<open>The outcome of an operation: a finite value, given by the real number it stands
  for, or a value that is not finite (an infinity or a NaN).\<close>

datatype float64 = Finite real | NonFinite

definition round64 :: "real \<Rightarrow> float64" where
  "round64 x =
     (let k = quantum x;
          y = of_int (roundHalfEven (x * scale64 / 2 ^ k)) * 2 ^ k / scale64
      in if \<bar>y\<bar> < 2 ^ 1024 then Finite y else NonFinite)"

text \<open>The real numbers that are finite \<open>float64\<close> values.\<close>

definition isFloat64 :: "real \<Rightarrow> bool" where
  "isFloat64 x \<longleftrightarrow>
     (\<exists>k \<in> {0 .. 2045}. \<exists>m \<in> {- (2 ^ 53) <..< 2 ^ 53}. x = of_int m * 2 ^ k / scale64)"

text \<open>\<open>a + b\<close>, \<open>a - b\<close> and \<open>t / 2.0\<close> on \<open>float64\<close>. The operands of the first two
  are orders of the store, which are finite; the operand of the third is the outcome of
  an addition, and half of an infinity is that infinity.\<close>

definition add64 :: "real \<Rightarrow> real \<Rightarrow> float64" where
  "add64 a b = round64 (a + b)"

definition sub64 :: "real \<Rightarrow> real \<Rightarrow> float64" where
  "sub64 a b = round64 (a - b)"

definition half64 :: "float64 \<Rightarrow> float64" where
  "half64 t = (case t of NonFinite \<Rightarrow> NonFinite | Finite x \<Rightarrow> round64 (x / 2))"

section \<open>Command handlers (package cli)\<close>

text \<open>
  Every handler is modelled from the point where the store has been loaded. A handler
  that returns a store returns the store as the handler leaves it, which is the store it
  hands to \<open>Save\<close> on the paths that save; a handler that returns an error has saved
  nothing. Of the persistence layer one thing is modelled: \<open>Save\<close> encodes the store
  with \<open>json.MarshalIndent\<close>, which refuses a \<open>float64\<close> that is not finite. A handler
  that has computed or parsed such an order fails in \<open>Save\<close>, and that is the error
  \<open>FailedToSaveData\<close>; reading and writing the file are taken to succeed.
  \<open>GenerateUUID\<close> reads the system's random source; its outcomes are an input: the
  \<open>k\<close>-th call of a handler yields \<open>uuid k\<close>, \<open>None\<close> when the read fails.
  An error that wraps another one (\<open>%w\<close>) is modelled by the wrapped error.
\<close>

datatype error =
    MemoNotFound string
  | FailedToGenerateUUID
  | FailedToGenerateMemoUUID
  | FailedToGenerateTaskUUID
  | MissingID
  | MemoRemovalAborted
  | NoTaskOrMemoFound string
  | MissingArguments
  | NoTaskFound string
  | MissingTargetTaskID
  | NoTargetTaskFound string
  | InvalidTargetOrder string
  | InvalidSubcommand
  | ConflictingFlags
  | NoTasksFound
  | MissingTaskTitle
  | MissingMarkdownArguments
  | MissingFilePath
  | InvalidOption string
  | FailedToReadFile
  | ErrorReadingStdin
  | FailedToSaveData
  | Panic

text \<open>The lookup that the handlers repeat inline: a 36-byte argument is a full id, any
  other argument is a prefix and the first element whose id starts with it is taken.\<close>

definition lookupTask :: "Store \<Rightarrow> string \<Rightarrow> nat option" where
  "lookupTask store id' =
     (if length id' = 36 then FindTaskByID store id'
      else firstIndex (\<lambda>t. prefix id' (ID t)) (Tasks store))"

definition lookupMemo :: "Store \<Rightarrow> string \<Rightarrow> nat option" where
  "lookupMemo store id' =
     (if length id' = 36 then FindMemoByID store id'
      else firstIndex (\<lambda>m. prefix id' (ID_memo m)) (Memos store))"

subsection \<open>Helper functions\<close>

text \<open>\<open>sortTasksByOrder\<close>: for every \<open>i\<close>, every later position \<open>j\<close> is compared
  with position \<open>i\<close> and the two elements are exchanged when the one at \<open>i\<close> has the
  strictly greater order. The slice is sorted in place; the model returns it.\<close>

definition sortTasksByOrder_swap :: "nat \<Rightarrow> Task list \<Rightarrow> nat \<Rightarrow> Task list" where
  "sortTasksByOrder_swap i tasks j =
     (if Order (tasks ! i) > Order (tasks ! j)
      then tasks[i := tasks ! j, j := tasks ! i] else tasks)"

definition sortTasksByOrder_inner :: "Task list \<Rightarrow> nat \<Rightarrow> Task list" where
  "sortTasksByOrder_inner tasks i =
     foldl (sortTasksByOrder_swap i) tasks [i + 1 ..< length tasks]"

definition sortTasksByOrder :: "Task list \<Rightarrow> Task list" where
  "sortTasksByOrder tasks = foldl sortTasksByOrder_inner tasks [0 ..< length tasks]"

definition containsString :: "string list \<Rightarrow> string \<Rightarrow> bool" where
  "containsString slice s = (firstIndex (\<lambda>item. item = s) slice \<noteq> None)"

text \<open>Removing the element at the first index that passes a test, as
  \<open>append(xs[:i], xs[i+1:]...)\<close> followed by \<open>break\<close> does.\<close>

definition removeFirst :: "('a \<Rightarrow> bool) \<Rightarrow> 'a list \<Rightarrow> 'a list" where
  "removeFirst P xs =
     (case firstIndex P xs of None \<Rightarrow> xs | Some i \<Rightarrow> take i xs @ drop (i + 1) xs)"

definition removeTask :: "Store \<Rightarrow> string \<Rightarrow> Store" where
  "removeTask store id' = store\<lparr>Tasks := removeFirst (\<lambda>task. ID task = id') (Tasks store)\<rparr>"

text \<open>\<open>removeMemo\<close>: the memo loop, then for every task the inner loop over its
  references, which removes one reference and breaks.\<close>

definition removeMemo :: "Store \<Rightarrow> string \<Rightarrow> Store" where
  "removeMemo store id' =
     store\<lparr>Memos := removeFirst (\<lambda>memo. ID_memo memo = id') (Memos store),
           Tasks := map (\<lambda>task. task\<lparr>MemoRefs := removeFirst (\<lambda>memoID. memoID = id') (MemoRefs task)\<rparr>)
                        (Tasks store)\<rparr>"

definition findTasksReferencingMemo :: "Store \<Rightarrow> string \<Rightarrow> Task list" where
  "findTasksReferencingMemo store memoID =
     filter (\<lambda>task. containsString (MemoRefs task) memoID) (Tasks store)"

subsection \<open>rm\<close>

text \<open>What the handlers print is kept as a list of structured lines; formatting is not
  modelled. \<open>task.ID[:8]\<close> is a slice expression: on an id shorter than 8 bytes it
  panics, and the lines printed before it stay printed.\<close>

datatype line =
    TaskRemoved string
  | MemoReferencedBy nat
  | ReferencingTask string string
  | ForcingRemoval nat
  | MemoRemoved string

fun printReferencingTasks :: "Task list \<Rightarrow> line list \<times> bool" where
  "printReferencingTasks [] = ([], False)"
| "printReferencingTasks (task # tasks) =
     (if length (ID task) < 8 then ([], True)
      else (case printReferencingTasks tasks of
              (ls, panicked) \<Rightarrow> (ReferencingTask (take 8 (ID task)) (Title task) # ls, panicked)))"

text \<open>\<open>executeRemove\<close> returns what it printed, its error (if any) and the store as it
  is in memory when the handler returns.\<close>

definition executeRemove :: "Store \<Rightarrow> string list \<Rightarrow> line list \<times> error option \<times> Store" where
  "executeRemove store args =
     (if length args < 1 then ([], Some MissingID, store)
      else
        let id' = args ! 0;
            force = (\<exists>a \<in> set (drop 1 args). a = ''-f'' \<or> a = ''--force'')
        in
        (case lookupTask store id' of
           Some ti \<Rightarrow>
             let task = Tasks store ! ti
             in ([TaskRemoved (Title task)], None, removeTask store (ID task))
         | None \<Rightarrow>
             (case lookupMemo store id' of
                Some mi \<Rightarrow>
                  let memo = Memos store ! mi;
                      referencingTasks = findTasksReferencingMemo store (ID_memo memo);
                      titleStr = (case Title_memo memo of None \<Rightarrow> ''<no title>'' | Some t \<Rightarrow> t)
                  in
                  if length referencingTasks > 0 \<and> \<not> force then
                    (case printReferencingTasks referencingTasks of
                       (ls, panicked) \<Rightarrow>
                         (MemoReferencedBy (length referencingTasks) # ls,
                          Some (if panicked then Panic else MemoRemovalAborted),
                          store))
                  else
                    ((if length referencingTasks > 0
                      then [ForcingRemoval (length referencingTasks)] else [])
                       @ [MemoRemoved titleStr],
                     None,
                     removeMemo store (ID_memo memo))
              | None \<Rightarrow> ([], Some (NoTaskOrMemoFound id'), store))))"

subsection \<open>mv\<close>

text \<open>The two neighbour loops of \<open>executeMove\<close> over the sorted copy: the task before
  the first position \<open>i > 0\<close> that holds the target's id, and the task after the first
  position \<open>i < len(tasks) - 1\<close> that holds it.\<close>

fun findPrevTask :: "Task list \<Rightarrow> string \<Rightarrow> Task option" where
  "findPrevTask (p # t # tasks) targetID =
     (if ID t = targetID then Some p else findPrevTask (t # tasks) targetID)"
| "findPrevTask tasks targetID = None"

fun findNextTask :: "Task list \<Rightarrow> string \<Rightarrow> Task option" where
  "findNextTask (t # n # tasks) targetID =
     (if ID t = targetID then Some n else findNextTask (n # tasks) targetID)"
| "findNextTask tasks targetID = None"

text \<open>The end of both branches of \<open>executeMove\<close>: the new order is assigned to the
  task, the time of the update is set, and the store is saved. \<open>setOrder\<close> is the
  assignment of a finite order.\<close>

definition setOrder :: "CustomTime \<Rightarrow> Store \<Rightarrow> nat \<Rightarrow> real \<Rightarrow> Store" where
  "setOrder now store ti newOrder =
     store\<lparr>Tasks := (Tasks store)[ti := (Tasks store ! ti)\<lparr>Order := newOrder, UpdatedAt := now\<rparr>]\<rparr>"

definition saveOrder :: "CustomTime \<Rightarrow> Store \<Rightarrow> nat \<Rightarrow> float64 \<Rightarrow> error + Store" where
  "saveOrder now store ti newOrder =
     (case newOrder of
        NonFinite \<Rightarrow> Inl FailedToSaveData
      | Finite v \<Rightarrow> Inr (setOrder now store ti v))"

text \<open>\<open>executeMove\<close>. \<open>strconv.ParseFloat\<close> is a parameter: \<open>None\<close> when it returns an
  error, else the \<open>float64\<close> it returns, which is not finite for the texts \<open>inf\<close>,
  \<open>infinity\<close> and \<open>nan\<close>.\<close>

definition executeMove ::
  "(string \<Rightarrow> float64 option) \<Rightarrow> CustomTime \<Rightarrow> Store \<Rightarrow> string list \<Rightarrow> error + Store" where
  "executeMove ParseFloat now store args =
     (if length args < 2 then Inl MissingArguments
      else
        let taskID = args ! 0 in
        (case lookupTask store taskID of
           None \<Rightarrow> Inl (NoTaskFound taskID)
         | Some ti \<Rightarrow>
             let tasks = sortTasksByOrder (Tasks store) in
             if args ! 1 = ''before'' \<or> args ! 1 = ''after'' then
               (if length args < 3 then Inl MissingTargetTaskID
                else
                  let targetTaskID = args ! 2 in
                  (case lookupTask store targetTaskID of
                     None \<Rightarrow> Inl (NoTargetTaskFound targetTaskID)
                   | Some gi \<Rightarrow>
                       let targetTask = Tasks store ! gi;
                           newOrder =
                             (if args ! 1 = ''before'' then
                                (case findPrevTask tasks (ID targetTask) of
                                   Some prevTask \<Rightarrow>
                                     half64 (add64 (Order prevTask) (Order targetTask))
                                 | None \<Rightarrow> sub64 (Order targetTask) 1)
                              else
                                (case findNextTask tasks (ID targetTask) of
                                   Some nextTask \<Rightarrow>
                                     half64 (add64 (Order targetTask) (Order nextTask))
                                 | None \<Rightarrow> add64 (Order targetTask) 1))
                       in saveOrder now store ti newOrder))
             else
               (case ParseFloat (args ! 1) of
                  None \<Rightarrow> Inl (InvalidTargetOrder (args ! 1))
                | Some targetOrder \<Rightarrow> saveOrder now store ti targetOrder)))"

subsection \<open>pop task\<close>

text \<open>The selection loop of \<open>executePop\<close>: \<open>lastTask\<close> starts as \<open>nil\<close> and
  \<open>maxOrder\<close> as \<open>-1.0\<close>; \<open>i\<close> is the position of the task the loop is at.\<close>

fun findLastTask :: "nat \<Rightarrow> nat option \<Rightarrow> real \<Rightarrow> Task list \<Rightarrow> nat option" where
  "findLastTask i lastTask maxOrder [] = lastTask"
| "findLastTask i lastTask maxOrder (task # tasks) =
     (if Order task > maxOrder
      then findLastTask (i + 1) (Some i) (Order task) tasks
      else findLastTask (i + 1) lastTask maxOrder tasks)"

text \<open>\<open>executePop\<close>. \<open>confirmation\<close> is the line \<open>readLine\<close> returns; only \<open>y\<close> and
  \<open>Y\<close> pass \<open>strings.ToLower(confirmation) == "y"\<close>. The branch that shows the task
  slices every memo reference with \<open>memoID[:8]\<close>.\<close>

definition executePop :: "CustomTime \<Rightarrow> string \<Rightarrow> Store \<Rightarrow> string list \<Rightarrow> error + Store" where
  "executePop now confirmation store args =
     (if length args < 1 \<or> args ! 0 \<noteq> ''task'' then Inl InvalidSubcommand
      else
        let doneFlag = (''--done'' \<in> set (drop 1 args));
            rmFlag = (''--rm'' \<in> set (drop 1 args));
            forceFlag = (''-f'' \<in> set (drop 1 args))
        in
        if doneFlag \<and> rmFlag then Inl ConflictingFlags
        else
          (case findLastTask 0 None (- 1) (Tasks store) of
             None \<Rightarrow> Inl NoTasksFound
           | Some li \<Rightarrow>
               let lastTask = Tasks store ! li in
               if doneFlag then
                 Inr (store\<lparr>Tasks := (Tasks store)[li := lastTask\<lparr>Done := True, UpdatedAt := now\<rparr>]\<rparr>)
               else if rmFlag then
                 (if \<not> forceFlag \<and> confirmation \<noteq> ''y'' \<and> confirmation \<noteq> ''Y''
                  then Inr store
                  else Inr (removeTask store (ID lastTask)))
               else if (\<exists>memoID \<in> set (MemoRefs lastTask). length memoID < 8) then Inl Panic
               else Inr store))"

section \<open>Markdown ingestion (MarkdownParser)\<close>

text \<open>
  A Go string is a sequence of bytes, and so is a \<open>string\<close> here. The functions of the
  packages \<open>strings\<close> and \<open>regexp\<close> that \<open>parseMarkdown\<close> calls are modelled on
  bytes, each for the arguments the source gives it.
\<close>

definition newline :: char where
  "newline = CHR ''\<newline>''"

text \<open>\<open>strings.Index\<close>: the position of the first occurrence of \<open>substr\<close>.\<close>

fun Index :: "string \<Rightarrow> string \<Rightarrow> nat option" where
  "Index [] substr = (if substr = [] then Some 0 else None)"
| "Index (c # s) substr =
     (if prefix substr (c # s) then Some 0 else map_option Suc (Index s substr))"

text \<open>\<open>strings.Replace(s, old, new, 1)\<close> for a non-empty \<open>old\<close>: the first occurrence
  is replaced.\<close>

definition Replace1 :: "string \<Rightarrow> string \<Rightarrow> string \<Rightarrow> string" where
  "Replace1 s old new =
     (case Index s old of
        None \<Rightarrow> s
      | Some p \<Rightarrow> take p s @ new @ drop (p + length old) s)"

text \<open>
  \<open>strings.TrimSpace\<close> removes leading and trailing white space as Unicode defines it.
  On the UTF-8 bytes of the string these are the six ASCII characters tab, line feed,
  vertical tab, form feed, carriage return and space, and the encodings of U+0085,
  U+00A0, U+1680, U+2000 to U+200A, U+2028, U+2029, U+202F, U+205F and U+3000. No
  encoding is a prefix of another one, and each starts with a byte that is no
  continuation byte, so that decoding the first or the last rune finds a white space
  exactly when one of the encodings is a prefix or a suffix.
\<close>

definition whiteSpace :: "string list" where
  "whiteSpace =
     [[CHR 0x09], [CHR 0x0A], [CHR 0x0B], [CHR 0x0C], [CHR 0x0D], [CHR 0x20],
      [CHR 0xC2, CHR 0x85], [CHR 0xC2, CHR 0xA0],
      [CHR 0xE1, CHR 0x9A, CHR 0x80],
      [CHR 0xE2, CHR 0x80, CHR 0x80], [CHR 0xE2, CHR 0x80, CHR 0x81],
      [CHR 0xE2, CHR 0x80, CHR 0x82], [CHR 0xE2, CHR 0x80, CHR 0x83],
      [CHR 0xE2, CHR 0x80, CHR 0x84], [CHR 0xE2, CHR 0x80, CHR 0x85],
      [CHR 0xE2, CHR 0x80, CHR 0x86], [CHR 0xE2, CHR 0x80, CHR 0x87],
      [CHR 0xE2, CHR 0x80, CHR 0x88], [CHR 0xE2, CHR 0x80, CHR 0x89],
      [CHR 0xE2, CHR 0x80, CHR 0x8A],
      [CHR 0xE2, CHR 0x80, CHR 0xA8], [CHR 0xE2, CHR 0x80, CHR 0xA9],
      [CHR 0xE2, CHR 0x80, CHR 0xAF], [CHR 0xE2, CHR 0x81, CHR 0x9F],
      [CHR 0xE3, CHR 0x80, CHR 0x80]]"

fun leadingSpace :: "string list \<Rightarrow> string \<Rightarrow> nat" where
  "leadingSpace [] s = 0"
| "leadingSpace (w # ws) s = (if prefix w s then length w else leadingSpace ws s)"

fun trailingSpace :: "string list \<Rightarrow> string \<Rightarrow> nat" where
  "trailingSpace [] s = 0"
| "trailingSpace (w # ws) s = (if suffix w s then length w else trailingSpace ws s)"

function TrimLeft :: "string \<Rightarrow> string" where
  "TrimLeft s =
     (if s = [] \<or> leadingSpace whiteSpace s = 0 then s
      else TrimLeft (drop (leadingSpace whiteSpace s) s))"
  by pat_completeness auto
termination
  by (relation "measure length") auto

function TrimRight :: "string \<Rightarrow> string" where
  "TrimRight s =
     (if s = [] \<or> trailingSpace whiteSpace s = 0 then s
      else TrimRight (take (length s - trailingSpace whiteSpace s) s))"
  by pat_completeness auto
termination
  by (relation "measure length") auto

declare TrimLeft.simps [simp del] TrimRight.simps [simp del]

definition TrimSpace :: "string \<Rightarrow> string" where
  "TrimSpace s = TrimRight (TrimLeft s)"

text \<open>
  The title pattern \<open>(?m)^# (.+)$\<close>. With the flag \<open>m\<close>, \<open>^\<close> and \<open>$\<close> match at
  the start and at the end of every line, lines being separated by line feeds, and
  \<open>.\<close> matches every character but the line feed. So a match is a whole line that
  starts with \<open>#\<close> and a space and has at least one more character, and the group is
  the line without its first two characters.
\<close>

text \<open>The lines of a text: the pieces between its line feeds. There is always at
  least one line, so the first case below does not occur.\<close>

fun splitLines :: "string \<Rightarrow> string list" where
  "splitLines [] = [[]]"
| "splitLines (c # s) =
     (if c = newline then [] # splitLines s
      else (case splitLines s of
              [] \<Rightarrow> [[c]]
            | l # ls \<Rightarrow> (c # l) # ls))"

fun joinLines :: "string list \<Rightarrow> string" where
  "joinLines [] = []"
| "joinLines [l] = l"
| "joinLines (l # ls) = l @ newline # joinLines ls"

definition isTitleLine :: "string \<Rightarrow> bool" where
  "isTitleLine l = (prefix ''# '' l \<and> length l > 2)"

text \<open>\<open>titleRegex.FindStringSubmatch(content)\<close>: the group of the leftmost match.\<close>

definition titleRegex_FindStringSubmatch :: "string \<Rightarrow> string option" where
  "titleRegex_FindStringSubmatch content =
     map_option (drop 2) (find isTitleLine (splitLines content))"

text \<open>\<open>titleRegex.ReplaceAllString(content, "")\<close>: every match is replaced by the
  empty string; the line feeds around it stay.\<close>

definition titleRegex_ReplaceAllString :: "string \<Rightarrow> string" where
  "titleRegex_ReplaceAllString content =
     joinLines (map (\<lambda>l. if isTitleLine l then [] else l) (splitLines content))"

text \<open>
  The memo pattern \<open>(?s)```memo\n(.*?)\n```\<close>. The leftmost match starts at the first
  opening fence that has a closing fence after it; there is one exactly when the first
  opening fence of all has one. The group is lazy, so the match ends with the first
  closing fence after the opening one. The search for the next match starts where the
  match ended. The result lists, for every match, the matched text and the group.
\<close>

definition memoOpen :: string where
  "memoOpen = ''```memo'' @ [newline]"

definition memoClose :: string where
  "memoClose = newline # ''```''"

function memoRegex_FindAllStringSubmatch :: "string \<Rightarrow> (string \<times> string) list" where
  "memoRegex_FindAllStringSubmatch s =
     (case Index s memoOpen of
        None \<Rightarrow> []
      | Some p \<Rightarrow>
          (case Index (drop (p + length memoOpen) s) memoClose of
             None \<Rightarrow> []
           | Some q \<Rightarrow>
               (memoOpen @ take q (drop (p + length memoOpen) s) @ memoClose,
                take q (drop (p + length memoOpen) s))
               # memoRegex_FindAllStringSubmatch
                   (drop (q + length memoClose) (drop (p + length memoOpen) s))))"
  by pat_completeness auto
termination
proof (relation "measure length")
  show "wf (measure length)" by simp
next
  fix s :: string and p q :: nat
  assume "Index s memoOpen = Some p"
  then have "s \<noteq> []" by (auto simp: memoOpen_def)
  then show "(drop (q + length memoClose) (drop (p + length memoOpen) s), s) \<in> measure length"
    by (simp add: memoOpen_def)
qed

declare memoRegex_FindAllStringSubmatch.simps [simp del]

text \<open>The reference marker, \<open>fmt.Sprintf("[memo](%s)", memoID)\<close>.\<close>

definition memoRef :: "string \<Rightarrow> string" where
  "memoRef memoID = ''[memo]('' @ memoID @ '')''"

text \<open>The loop of \<open>parseMarkdown\<close> over the matches: the \<open>k\<close>-th call of
  \<open>GenerateUUID\<close> yields \<open>uuid k\<close>.\<close>

fun replaceMemoBlocks ::
  "CustomTime \<Rightarrow> (nat \<Rightarrow> string option) \<Rightarrow> nat \<Rightarrow> (string \<times> string) list \<Rightarrow> string
     \<Rightarrow> error + (Memo list \<times> string)" where
  "replaceMemoBlocks now uuid k [] content = Inr ([], content)"
| "replaceMemoBlocks now uuid k (match # matches) content =
     (case uuid k of
        None \<Rightarrow> Inl FailedToGenerateMemoUUID
      | Some memoID \<Rightarrow>
          let memo = NewMemo now memoID None (snd match)
          in (case replaceMemoBlocks now uuid (k + 1) matches
                     (Replace1 content (fst match) (memoRef memoID)) of
                Inl e \<Rightarrow> Inl e
              | Inr (memos, content') \<Rightarrow> Inr (memo # memos, content')))"

text \<open>\<open>parseMarkdown\<close>. The task it returns carries the order
  \<open>GetMaxTaskOrder() + 1.0\<close>. For an order \<open>x\<close> of the store this sum is finite; the
  last case stands for a sum that is not, which \<open>Save\<close> would refuse.\<close>

definition parseMarkdown ::
  "CustomTime \<Rightarrow> (nat \<Rightarrow> string option) \<Rightarrow> Store \<Rightarrow> string \<Rightarrow> string
     \<Rightarrow> error + (Task \<times> Memo list)" where
  "parseMarkdown now uuid store content defaultTitle =
     (let titleMatch = titleRegex_FindStringSubmatch content;
          title = (case titleMatch of Some t \<Rightarrow> t | None \<Rightarrow> defaultTitle);
          content1 = (case titleMatch of Some t \<Rightarrow> titleRegex_ReplaceAllString content
                                       | None \<Rightarrow> content);
          memoMatches = memoRegex_FindAllStringSubmatch content1
      in
      (case replaceMemoBlocks now uuid 0 memoMatches content1 of
         Inl e \<Rightarrow> Inl e
       | Inr (memos, content2) \<Rightarrow>
           (case uuid (length memoMatches) of
              None \<Rightarrow> Inl FailedToGenerateTaskUUID
            | Some taskID \<Rightarrow>
                let task = NewTask now taskID title (TrimSpace content2) (map ID_memo memos)
                in (case add64 (GetMaxTaskOrder store) 1 of
                      Finite v \<Rightarrow> Inr (task\<lparr>Order := v\<rparr>, memos)
                    | NonFinite \<Rightarrow> Inl FailedToSaveData))))"

definition SaveTaskAndMemos :: "Store \<Rightarrow> Task \<Rightarrow> Memo list \<Rightarrow> Store" where
  "SaveTaskAndMemos store task memos = AddTask (foldl AddMemo store memos) task"

text \<open>\<open>strings.LastIndex\<close> for a separator of one byte.\<close>

definition LastIndex :: "string \<Rightarrow> char \<Rightarrow> nat option" where
  "LastIndex s sep =
     (case firstIndex (\<lambda>c. c = sep) (rev s) of
        None \<Rightarrow> None
      | Some i \<Rightarrow> Some (length s - 1 - i))"

text \<open>\<open>ParseFromFile\<close>. \<open>ioutil.ReadFile\<close> is a parameter, \<open>None\<close> when it returns
  an error. The default title is the file's name without its directories and without
  its last extension.\<close>

definition ParseFromFile ::
  "(string \<Rightarrow> string option) \<Rightarrow> CustomTime \<Rightarrow> (nat \<Rightarrow> string option) \<Rightarrow> Store \<Rightarrow> string
     \<Rightarrow> error + (Task \<times> Memo list)" where
  "ParseFromFile ReadFile now uuid store filePath =
     (case ReadFile filePath of
        None \<Rightarrow> Inl FailedToReadFile
      | Some content \<Rightarrow>
          let filename = (case LastIndex filePath (CHR ''/'') of
                            Some lastSlash \<Rightarrow> drop (lastSlash + 1) filePath
                          | None \<Rightarrow> filePath);
              filename = (case LastIndex filename (CHR ''.'') of
                            Some lastDot \<Rightarrow> take lastDot filename
                          | None \<Rightarrow> filename)
          in parseMarkdown now uuid store content filename)"

text \<open>\<open>ParseFromStdin\<close>. The scanner is a parameter: \<open>scanned\<close> is the list of the
  lines that \<open>scanner.Text()\<close> returned, or \<open>None\<close> when \<open>scanner.Err()\<close> is an error.
  Every line is written to the content with a line feed after it.\<close>

definition ParseFromStdin ::
  "string list option \<Rightarrow> CustomTime \<Rightarrow> (nat \<Rightarrow> string option) \<Rightarrow> Store
     \<Rightarrow> error + (Task \<times> Memo list)" where
  "ParseFromStdin scanned now uuid store =
     (case scanned of
        None \<Rightarrow> Inl ErrorReadingStdin
      | Some lines \<Rightarrow>
          parseMarkdown now uuid store (concat (map (\<lambda>l. l @ [newline]) lines))
            ''Task from stdin'')"

section \<open>add task, push task, unshift task\<close>

text \<open>\<open>executeAddTaskFromMarkdown\<close>: the handler of \<open>-f <filepath>\<close> and
  \<open>--from-stdin\<close>. It takes no mode: the task gets the order that \<open>parseMarkdown\<close>
  gave it. The lines it prints after the save are not modelled.\<close>

definition executeAddTaskFromMarkdown ::
  "(string \<Rightarrow> string option) \<Rightarrow> string list option \<Rightarrow> CustomTime \<Rightarrow> (nat \<Rightarrow> string option)
     \<Rightarrow> Store \<Rightarrow> string list \<Rightarrow> error + Store" where
  "executeAddTaskFromMarkdown ReadFile scanned now uuid store args =
     (if length args = 0 then Inl MissingMarkdownArguments
      else if args ! 0 = ''-f'' \<and> length args < 2 then Inl MissingFilePath
      else if args ! 0 \<noteq> ''-f'' \<and> args ! 0 \<noteq> ''--from-stdin'' then Inl (InvalidOption (args ! 0))
      else
        (case (if args ! 0 = ''--from-stdin''
               then ParseFromStdin scanned now uuid store
               else ParseFromFile ReadFile now uuid store (args ! 1)) of
           Inl e \<Rightarrow> Inl e
         | Inr (task, memos) \<Rightarrow> Inr (SaveTaskAndMemos store task memos)))"

text \<open>The loop of \<open>executeAddTask\<close> over the arguments after the title: \<open>-d\<close> and
  \<open>-m\<close> take the argument that follows them, when there is one; everything else is
  skipped.\<close>

fun parseAddFlags :: "string list \<Rightarrow> string \<Rightarrow> string \<Rightarrow> string \<times> string" where
  "parseAddFlags (a # b # args) description memoRefsStr =
     (if a = ''-d'' then parseAddFlags args b memoRefsStr
      else if a = ''-m'' then parseAddFlags args description b
      else parseAddFlags (b # args) description memoRefsStr)"
| "parseAddFlags args description memoRefsStr = (description, memoRefsStr)"

text \<open>\<open>strings.Split\<close> for a separator of one byte: the pieces between the
  separators. There is always at least one piece, so the first case below does not
  occur.\<close>

fun Split :: "string \<Rightarrow> char \<Rightarrow> string list" where
  "Split [] sep = [[]]"
| "Split (c # s) sep =
     (if c = sep then [] # Split s sep
      else (case Split s sep of
              [] \<Rightarrow> [[c]]
            | piece # pieces \<Rightarrow> (c # piece) # pieces))"

text \<open>The first loop of \<open>executeAddTask\<close> over the memo references: a reference shorter
  than 36 bytes is replaced by the id of the first memo it is a prefix of.\<close>

fun resolveMemoRefs :: "Store \<Rightarrow> string list \<Rightarrow> error + string list" where
  "resolveMemoRefs store [] = Inr []"
| "resolveMemoRefs store (refID # refs) =
     (if length refID < 36 then
        (case firstIndex (\<lambda>m. prefix refID (ID_memo m)) (Memos store) of
           None \<Rightarrow> Inl (MemoNotFound refID)
         | Some k \<Rightarrow>
             (case resolveMemoRefs store refs of
                Inl e \<Rightarrow> Inl e
              | Inr refs' \<Rightarrow> Inr (ID_memo (Memos store ! k) # refs')))
      else
        (case resolveMemoRefs store refs of
           Inl e \<Rightarrow> Inl e
         | Inr refs' \<Rightarrow> Inr (refID # refs')))"

text \<open>The second loop: a reference of exactly 36 bytes must be the id of a memo.\<close>

fun validateMemoRefs :: "Store \<Rightarrow> string list \<Rightarrow> error option" where
  "validateMemoRefs store [] = None"
| "validateMemoRefs store (memoID # refs) =
     (if length memoID = 36 \<and> FindMemoByID store memoID = None
      then Some (MemoNotFound memoID)
      else validateMemoRefs store refs)"

text \<open>\<open>executeAddTask\<close>. With \<open>-f\<close> or \<open>--from-stdin\<close> as the first argument it
  hands over to \<open>executeAddTaskFromMarkdown\<close>, whatever the mode. Otherwise the first
  argument is the title. A mode other than the three of the \<open>switch\<close> leaves the order
  at the \<open>0.0\<close> of \<open>NewTask\<close>.\<close>

definition executeAddTask ::
  "(string \<Rightarrow> string option) \<Rightarrow> string list option \<Rightarrow> CustomTime \<Rightarrow> (nat \<Rightarrow> string option)
     \<Rightarrow> Store \<Rightarrow> string list \<Rightarrow> string \<Rightarrow> error + Store" where
  "executeAddTask ReadFile scanned now uuid store args mode =
     (if length args > 0 \<and> (args ! 0 = ''-f'' \<or> args ! 0 = ''--from-stdin'')
      then executeAddTaskFromMarkdown ReadFile scanned now uuid store args
      else if length args < 1 then Inl MissingTaskTitle
      else
        let title = args ! 0;
            flags = parseAddFlags (drop 1 args) [] [];
            description = fst flags;
            memoRefsStr = snd flags;
            memoRefs = (if memoRefsStr \<noteq> []
                        then map TrimSpace (Split memoRefsStr (CHR '',''))
                        else [])
        in
        (case resolveMemoRefs store memoRefs of
           Inl e \<Rightarrow> Inl e
         | Inr memoRefs' \<Rightarrow>
             (case uuid 0 of
                None \<Rightarrow> Inl FailedToGenerateUUID
              | Some id' \<Rightarrow>
                  (case validateMemoRefs store memoRefs' of
                     Some e \<Rightarrow> Inl e
                   | None \<Rightarrow>
                       let task = NewTask now id' title description memoRefs';
                           order = (if mode = ''add'' \<or> mode = ''push''
                                    then add64 (GetMaxTaskOrder store) 1
                                    else if mode = ''unshift''
                                    then sub64 (GetMinTaskOrder store) 1
                                    else Finite (Order task))
                       in (case order of
                             NonFinite \<Rightarrow> Inl FailedToSaveData
                           | Finite v \<Rightarrow> Inr (AddTask store (task\<lparr>Order := v\<rparr>)))))))"

section \<open>Example data\<close>

text \<open>Identifiers of the form \<open>GenerateUUID\<close> produces (36 bytes), and tasks and
  memos that differ only in what the examples are about.\<close>

definition idA :: string where "idA = ''aaaaaaaa-0000-4000-8000-000000000001''"
definition idB :: string where "idB = ''bbbbbbbb-0000-4000-8000-000000000002''"
definition idC :: string where "idC = ''cccccccc-0000-4000-8000-000000000003''"
definition idM :: string where "idM = ''dddddddd-0000-4000-8000-000000000004''"
definition idMemo :: string where "idMemo = ''eeeeeeee-0000-4000-8000-000000000005''"

definition exTask :: "string \<Rightarrow> real \<Rightarrow> string list \<Rightarrow> Task" where
  "exTask id' r refs =
     \<lparr>ID = id', Title = ''task'', Description = [], Order = r, Done = False,
      MemoRefs = refs, CreatedAt = 0, UpdatedAt = 0\<rparr>"

definition exStore :: "Task list \<Rightarrow> Store" where
  "exStore tasks = \<lparr>Version = 1, Tasks = tasks, Memos = []\<rparr>"

definition exMemo :: Memo where
  "exMemo = \<lparr>ID_memo = idMemo, Title_memo = None, Content = ''note'',
             CreatedAt_memo = 0, UpdatedAt_memo = 0\<rparr>"

text \<open>Stand-ins for \<open>strconv.ParseFloat\<close> in the examples of relative moves and for
  \<open>ioutil.ReadFile\<close> in the examples that read no file; neither is called there.\<close>

definition exParseFloat :: "string \<Rightarrow> float64 option" where
  "exParseFloat s = None"

definition exReadFile :: "string \<Rightarrow> string option" where
  "exReadFile path = None"

text \<open>The outcomes of \<open>GenerateUUID\<close> in the examples: \<open>uuidOf id'\<close> yields \<open>id'\<close>
  at every call; with \<open>exUUID\<close> the first three calls yield \<open>idA\<close>, \<open>idB\<close> and
  \<open>idC\<close>.\<close>

definition uuidOf :: "string \<Rightarrow> nat \<Rightarrow> string option" where
  "uuidOf id' k = Some id'"

definition exUUID :: "nat \<Rightarrow> string option" where
  "exUUID k = (if k = 0 then Some idA else if k = 1 then Some idB else Some idC)"

section \<open>The loop invariant of the sort\<close>

text \<open>The invariant of the outer loop of \<open>sortTasksByOrder\<close>: every position below
  \<open>i\<close> holds an order that is at most the order at every later position.\<close>

definition sortedUpTo :: "nat \<Rightarrow> Task list \<Rightarrow> bool" where
  "sortedUpTo i ts \<longleftrightarrow> (\<forall>a < i. \<forall>b < length ts. a < b \<longrightarrow> Order (ts ! a) \<le> Order (ts ! b))"

section \<open>Rounding to float64\<close>

lemma scale64_pos: "0 < scale64"
  by (simp add: scale64_def)

lemma roundHalfEven_of_int [simp]: "roundHalfEven (of_int n) = n"
  by (simp add: roundHalfEven_def)

lemma roundHalfEven_error: "\<bar>of_int (roundHalfEven z) - z\<bar> \<le> 1 / 2"
proof -
  have "of_int \<lfloor>z\<rfloor> \<le> z" "z < of_int \<lfloor>z\<rfloor> + 1" by linarith+
  then show ?thesis
    by (auto simp: roundHalfEven_def Let_def)
qed

lemma quantumFrom_start: "k0 \<le> quantumFrom n k0 s"
proof (induction n arbitrary: k0)
  case 0
  show ?case by simp
next
  case (Suc n)
  from Suc [of "Suc k0"] show ?case by (simp add: Suc_leD)
qed

lemma quantumFrom_le:
  "k0 \<le> k \<Longrightarrow> s < 2 ^ (k + 53) \<Longrightarrow> quantumFrom n k0 s \<le> k"
proof (induction n arbitrary: k0)
  case 0
  then show ?case by simp
next
  case (Suc n)
  show ?case
  proof (cases "s < 2 ^ (k0 + 53)")
    case True
    with Suc.prems show ?thesis by simp
  next
    case False
    with Suc.prems have "k0 \<noteq> k" by auto
    with Suc.prems have "Suc k0 \<le> k" by simp
    from Suc.IH [OF this Suc.prems(2)] False show ?thesis by simp
  qed
qed

lemma quantumFrom_ge:
  "k0 \<le> k \<Longrightarrow> k \<le> k0 + n \<Longrightarrow> (2::real) ^ (k + 52) \<le> s \<Longrightarrow> k \<le> quantumFrom n k0 s"
proof (induction n arbitrary: k0)
  case 0
  then show ?case by simp
next
  case (Suc n)
  show ?case
  proof (cases "k0 = k")
    case True
    with quantumFrom_start [of k "Suc n" s] show ?thesis by simp
  next
    case False
    with Suc.prems have lt: "k0 < k" by simp
    then have "k0 + 53 \<le> k + 52" by simp
    then have "(2::real) ^ (k0 + 53) \<le> 2 ^ (k + 52)"
      by (intro power_increasing) simp_all
    with Suc.prems(3) have nt: "\<not> s < 2 ^ (k0 + 53)" by linarith
    from lt Suc.prems have "Suc k0 \<le> k" "k \<le> Suc k0 + n" by simp_all
    from Suc.IH [OF this Suc.prems(3)] nt show ?thesis by simp
  qed
qed

lemma quantum_eq:
  assumes "k \<le> 2045" and "k = 0 \<or> 2 ^ (k + 52) \<le> \<bar>x\<bar> * scale64" and "\<bar>x\<bar> * scale64 < 2 ^ (k + 53)"
  shows "quantum x = k"
proof -
  have le: "quantum x \<le> k"
    unfolding quantum_def by (rule quantumFrom_le [OF _ assms(3)]) simp
  have "k \<le> quantum x"
  proof (cases "k = 0")
    case True
    then show ?thesis by simp
  next
    case False
    with assms(2) have "2 ^ (k + 52) \<le> \<bar>x\<bar> * scale64" by simp
    then show ?thesis
      unfolding quantum_def using assms(1) by (intro quantumFrom_ge) simp_all
  qed
  with le show ?thesis by simp
qed

lemma below_overflow:
  assumes "\<bar>x\<bar> * scale64 < 2 ^ (j + 53)" and "j \<le> 2045"
  shows "\<bar>x\<bar> < 2 ^ 1024"
proof -
  from assms(2) have "j + 53 \<le> 2098" by simp
  then have "(2::real) ^ (j + 53) \<le> 2 ^ 2098"
    by (intro power_increasing) simp_all
  also have "(2::real) ^ 2098 = 2 ^ 1024 * scale64"
    unfolding scale64_def by (simp only: power_add [symmetric]) simp
  finally have "\<bar>x\<bar> * scale64 < 2 ^ 1024 * scale64" using assms(1) by simp
  with scale64_pos show ?thesis by simp
qed

text \<open>A float64 value is rounded to itself.\<close>

lemma round64_exact:
  assumes "isFloat64 x"
  shows "round64 x = Finite x"
proof -
  from assms obtain j :: nat and m :: int where
    jm: "j \<in> {0 .. 2045}" "m \<in> {- (2 ^ 53) <..< 2 ^ 53}"
    and x: "x = of_int m * 2 ^ j / scale64"
    unfolding isFloat64_def by blast
  from jm have m: "\<bar>m\<bar> < 2 ^ 53" and j: "j \<le> 2045"
    by (simp_all add: abs_less_iff)
  let ?k = "quantum x"
  have s: "\<bar>x\<bar> * scale64 = \<bar>of_int m\<bar> * 2 ^ j"
    using scale64_pos by (simp add: x abs_mult)
  from m have "\<bar>real_of_int m\<bar> < 2 ^ 53"
    by (metis of_int_abs of_int_less_numeral_power_cancel_iff)
  then have "\<bar>real_of_int m\<bar> * 2 ^ j < 2 ^ 53 * 2 ^ j"
    by (intro mult_strict_right_mono) simp_all
  moreover have "(2::real) ^ (j + 53) = 2 ^ 53 * 2 ^ j"
    by (simp only: power_add mult.commute)
  ultimately have lt: "\<bar>x\<bar> * scale64 < 2 ^ (j + 53)"
    by (simp only: s)
  have kj: "?k \<le> j"
    unfolding quantum_def by (rule quantumFrom_le [OF _ lt]) simp
  have p: "(2::real) ^ j = 2 ^ (j - ?k) * 2 ^ ?k"
    using kj by (simp add: power_add [symmetric])
  have xs: "x * scale64 = of_int m * 2 ^ j"
    using scale64_pos by (simp add: x)
  have "x * scale64 / 2 ^ ?k = of_int m * 2 ^ (j - ?k)"
    unfolding xs by (subst p) simp
  then have z: "x * scale64 / 2 ^ ?k = of_int (m * 2 ^ (j - ?k))"
    by simp
  have "of_int (m * 2 ^ (j - ?k)) * 2 ^ ?k / scale64 = of_int m * (2 ^ (j - ?k) * 2 ^ ?k) / scale64"
    by simp
  also have "\<dots> = of_int m * 2 ^ j / scale64"
    by (simp only: p [symmetric])
  also have "\<dots> = x"
    by (simp only: x)
  finally have y: "of_int (roundHalfEven (x * scale64 / 2 ^ ?k)) * 2 ^ ?k / scale64 = x"
    unfolding z roundHalfEven_of_int .
  from below_overflow [OF lt j] show ?thesis
    unfolding round64_def Let_def y by simp
qed


lemma isFloat64I:
  "\<bar>m\<bar> < 2 ^ 53 \<Longrightarrow> k \<le> 2045 \<Longrightarrow> x = of_int m * 2 ^ k / scale64 \<Longrightarrow> isFloat64 x"
  unfolding isFloat64_def by (intro bexI [of _ k] bexI [of _ m]) auto

lemma isFloat64_int: "\<bar>n\<bar> < 2 ^ 53 \<Longrightarrow> isFloat64 (of_int n)"
  by (rule isFloat64I [of n 1074]) (simp_all add: scale64_def)

lemma isFloat64_half_int: "\<bar>n\<bar> < 2 ^ 53 \<Longrightarrow> isFloat64 (of_int n / 2)"
proof (rule isFloat64I [of n 1073])
  have "(2::real) ^ 1074 = 2 * 2 ^ 1073" by (simp only: power_Suc [symmetric]) simp
  then show "real_of_int n / 2 = real_of_int n * 2 ^ 1073 / scale64"
    by (simp add: scale64_def)
qed simp_all


lemma roundHalfEven_tie:
  "roundHalfEven (of_int n + 1 / 2) = (if even n then n else n + 1)"
proof -
  have "\<lfloor>real_of_int n + 1 / 2\<rfloor> = n" by linarith
  then show ?thesis by (simp add: roundHalfEven_def)
qed

text \<open>Rounding in the binade whose spacing is \<open>u\<close>.\<close>

lemma round64_ulp:
  assumes k: "k \<le> 2044" and u: "u = 2 ^ k / scale64"
    and lo: "2 ^ 52 * u \<le> \<bar>x\<bar>" and hi: "\<bar>x\<bar> < 2 ^ 53 * u"
  shows "round64 x = Finite (of_int (roundHalfEven (x / u)) * u)"
proof -
  have up: "0 < u" using scale64_pos by (simp add: u)
  have us: "u * scale64 = 2 ^ k" using scale64_pos by (simp add: u)
  have "2 ^ (k + 52) = 2 ^ 52 * (u * scale64)"
    by (simp add: us power_add)
  also have "\<dots> = (2 ^ 52 * u) * scale64" by simp
  also have "\<dots> \<le> \<bar>x\<bar> * scale64"
    using lo scale64_pos by (intro mult_right_mono) simp_all
  finally have a: "2 ^ (k + 52) \<le> \<bar>x\<bar> * scale64" .
  have "\<bar>x\<bar> * scale64 < (2 ^ 53 * u) * scale64"
    using hi scale64_pos by (intro mult_strict_right_mono)
  also have "\<dots> = 2 ^ 53 * (u * scale64)" by simp
  also have "\<dots> = 2 ^ (k + 53)"
    by (simp add: us power_add)
  finally have b: "\<bar>x\<bar> * scale64 < 2 ^ (k + 53)" .
  from k have "k \<le> 2045" by simp
  from quantum_eq [OF this _ b] a have q: "quantum x = k" by simp
  have z: "x * scale64 / 2 ^ k = x / u"
    using scale64_pos by (simp add: u)
  let ?r = "roundHalfEven (x / u)"
  have y: "of_int ?r * 2 ^ k / scale64 = of_int ?r * u"
    by (simp add: u)
  have "\<bar>x / u\<bar> < 2 ^ 53" using hi up by (simp add: abs_divide pos_divide_less_eq abs_of_pos)
  with roundHalfEven_error [of "x / u"] have "\<bar>real_of_int ?r\<bar> \<le> 2 ^ 53 + 1 / 2" by linarith
  then have "\<bar>real_of_int ?r\<bar> < 2 ^ 54" by simp
  have "\<bar>real_of_int ?r * u\<bar> = \<bar>real_of_int ?r\<bar> * u"
    using up by (simp add: abs_mult)
  also have "\<dots> < 2 ^ 54 * u"
    using \<open>\<bar>real_of_int ?r\<bar> < 2 ^ 54\<close> up by (intro mult_strict_right_mono)
  also have "\<dots> \<le> 2 ^ 1024"
  proof -
    from k have "k + 54 \<le> 2098" by simp
    then have "(2::real) ^ (k + 54) \<le> 2 ^ 2098"
      by (intro power_increasing) simp_all
    also have "(2::real) ^ 2098 = 2 ^ 1024 * scale64"
      unfolding scale64_def by (simp only: power_add [symmetric]) simp
    finally have "(2::real) ^ (k + 54) \<le> 2 ^ 1024 * scale64" .
    moreover have "(2::real) ^ (k + 54) = (2 ^ 54 * u) * scale64"
      unfolding mult.assoc us by (simp only: power_add mult.commute)
    ultimately have "(2 ^ 54 * u) * scale64 \<le> 2 ^ 1024 * scale64" by simp
    with scale64_pos show ?thesis by simp
  qed
  finally have fin: "\<bar>real_of_int ?r * u\<bar> < 2 ^ 1024" .
  show ?thesis
    unfolding round64_def Let_def q z y using fin by simp
qed

lemma two_is_ulp: "(2::real) = 2 ^ 1075 / scale64"
proof -
  have "(2::real) ^ 1075 = 2 * 2 ^ 1074" by (simp only: power_Suc [symmetric]) simp
  then show ?thesis by (simp add: scale64_def)
qed





lemma round64_int: "\<bar>n\<bar> < 2 ^ 53 \<Longrightarrow> round64 (of_int n) = Finite (of_int n)"
  by (rule round64_exact [OF isFloat64_int])

lemma round64_half_int: "\<bar>n\<bar> < 2 ^ 53 \<Longrightarrow> round64 (of_int n / 2) = Finite (of_int n / 2)"
  by (rule round64_exact [OF isFloat64_half_int])

lemma round64_2_53_plus_1: "round64 9007199254740993 = Finite 9007199254740992"
proof -
  let ?x = "9007199254740993 :: real"
  have "?x / 2 = of_int 4503599627370496 + 1 / 2" by simp
  then have r: "roundHalfEven (?x / 2) = 4503599627370496"
    by (simp only: roundHalfEven_tie) simp
  have b: "2 ^ 52 * 2 \<le> \<bar>?x\<bar>" "\<bar>?x\<bar> < 2 ^ 53 * 2" by simp_all
  have "round64 ?x = Finite (of_int (roundHalfEven (?x / 2)) * 2)"
    by (rule round64_ulp [OF _ two_is_ulp b]) simp
  then show ?thesis
    by (simp only: r) simp
qed

lemma round64_tie_at_2:
  "round64 (9007199254740993 / 4503599627370496) = Finite 2"
proof -
  let ?u = "1 / 2 ^ 51 :: real"
  let ?x = "9007199254740993 / 4503599627370496 :: real"
  have "(2::real) ^ 1074 = 2 ^ 51 * 2 ^ 1023" by (simp only: power_add [symmetric]) simp
  then have u: "?u = 2 ^ 1023 / scale64" by (simp add: scale64_def)
  have "?x / ?u = of_int 4503599627370496 + 1 / 2" by simp
  then have r: "roundHalfEven (?x / ?u) = 4503599627370496"
    by (simp only: roundHalfEven_tie) simp
  have b: "2 ^ 52 * ?u \<le> \<bar>?x\<bar>" "\<bar>?x\<bar> < 2 ^ 53 * ?u" by simp_all
  have "round64 ?x = Finite (of_int (roundHalfEven (?x / ?u)) * ?u)"
    by (rule round64_ulp [OF _ u b]) simp
  then show ?thesis
    by (simp only: r) simp
qed

lemmas round64_values =
  round64_int [of 0, simplified] round64_int [of 1, simplified] round64_int [of "- 1", simplified]
  round64_int [of 2, simplified] round64_int [of 3, simplified] round64_int [of 4, simplified]
  round64_int [of 5, simplified] round64_int [of "- 4", simplified]
  round64_half_int [of 3, simplified] round64_half_int [of 5, simplified]
  round64_2_53_plus_1 round64_tie_at_2


lemma quantumFrom_upper: "quantumFrom n k0 s \<le> k0 + n"
proof (induction n arbitrary: k0)
  case 0
  show ?case by simp
next
  case (Suc n)
  from Suc [of "Suc k0"] show ?case by simp
qed

text \<open>A result of magnitude \<open>2^1024\<close> or more is not finite.\<close>

lemma round64_overflow:
  assumes "2 ^ 1024 \<le> \<bar>x\<bar>"
  shows "round64 x = NonFinite"
proof -
  define u :: real where "u = 2 ^ 2045 / scale64"
  have up: "0 < u" using scale64_pos by (simp add: u_def)
  have us: "u * scale64 = 2 ^ 2045" using scale64_pos by (simp add: u_def)
  have "(2::real) ^ 2098 = 2 ^ 1024 * scale64"
    unfolding scale64_def by (simp only: power_add [symmetric]) simp
  moreover have "(2::real) ^ 2098 = 2 ^ 53 * 2 ^ 2045"
    by (simp only: power_add [symmetric]) simp
  ultimately have "(2 ^ 53 * u) * scale64 = 2 ^ 1024 * scale64"
    by (simp only: mult.assoc us)
  with scale64_pos have top: "2 ^ 53 * u = 2 ^ 1024" by simp
  have "(2::real) ^ (2045 + 52) = 2 ^ 52 * 2 ^ 2045"
    by (simp only: power_add mult.commute)
  also have "\<dots> = 2 ^ 52 * (u * scale64)"
    by (simp only: us)
  also have "\<dots> = (2 ^ 52 * u) * scale64" by simp
  also have "\<dots> \<le> (2 ^ 53 * u) * scale64"
    using up scale64_pos by (intro mult_right_mono) simp_all
  also have "\<dots> \<le> \<bar>x\<bar> * scale64"
    unfolding top using assms scale64_pos by (intro mult_right_mono) simp_all
  finally have "(2::real) ^ (2045 + 52) \<le> \<bar>x\<bar> * scale64" .
  then have "2045 \<le> quantum x"
    unfolding quantum_def by (intro quantumFrom_ge) simp_all
  moreover have "quantum x \<le> 2045"
    unfolding quantum_def using quantumFrom_upper [of 2045 0] by simp
  ultimately have q: "quantum x = 2045" by simp
  have z: "x * scale64 / 2 ^ 2045 = x / u"
    using scale64_pos by (simp add: u_def)
  let ?r = "roundHalfEven (x / u)"
  have y: "of_int ?r * 2 ^ 2045 / scale64 = of_int ?r * u"
    by (simp add: u_def)
  have "2 ^ 53 * u \<le> \<bar>x\<bar>" using assms by (simp only: top)
  then have "2 ^ 53 \<le> \<bar>x\<bar> / u" using up by (simp add: pos_le_divide_eq)
  then have "2 ^ 53 \<le> \<bar>x / u\<bar>" using up by (simp add: abs_divide abs_of_pos)
  with roundHalfEven_error [of "x / u"] have "2 ^ 53 - 1 / 2 \<le> \<bar>real_of_int ?r\<bar>" by linarith
  then have "2 ^ 53 - 1 < \<bar>real_of_int ?r\<bar>" by simp
  then have "real_of_int (2 ^ 53 - 1) < real_of_int \<bar>?r\<bar>" by simp
  then have "2 ^ 53 - 1 < \<bar>?r\<bar>" by (simp only: of_int_less_iff)
  then have "2 ^ 53 \<le> \<bar>?r\<bar>" by simp
  then have "real_of_int (2 ^ 53) \<le> real_of_int \<bar>?r\<bar>" by (simp only: of_int_le_iff)
  then have "2 ^ 53 \<le> \<bar>real_of_int ?r\<bar>" by simp
  then have "2 ^ 53 * u \<le> \<bar>real_of_int ?r\<bar> * u"
    using up by (intro mult_right_mono) simp_all
  then have "2 ^ 1024 \<le> \<bar>real_of_int ?r * u\<bar>"
    using up by (simp only: top abs_mult abs_of_pos)
  then show ?thesis
    unfolding round64_def Let_def q z y by simp
qed

lemmas markdown_defs =
  parseMarkdown_def Let_def titleRegex_FindStringSubmatch_def titleRegex_ReplaceAllString_def
  isTitleLine_def memoOpen_def memoClose_def Replace1_def newline_def NewTask_def NewMemo_def
  GetMaxTaskOrder_def memoRegex_FindAllStringSubmatch.simps memoRef_def add64_def
  round64_values

lemmas trim_defs = TrimSpace_def TrimLeft.simps TrimRight.simps whiteSpace_def suffix_to_prefix

section \<open>Ordering engine: append and prepend\<close>












lemmas example_defs =
  idA_def idB_def idC_def idM_def idMemo_def exTask_def exStore_def NewStore_def
  exReadFile_def uuidOf_def

lemmas add_defs =
  executeAddTask_def NewTask_def AddTask_def GetMaxTaskOrder_def GetMinTaskOrder_def
  FindMemoByID_def add64_def sub64_def round64_values

text \<open>
  Claim C2. Append is to give the new task the maximum existing order plus \<open>1.0\<close>, also
  when every existing order is negative. \<open>GetMaxTaskOrder\<close> starts its running maximum
  at \<open>0.0\<close>: on the store that one \<open>unshift\<close> into the empty store leaves (a single
  task of order \<open>-1\<close>) it returns \<open>0\<close>, and \<open>add\<close> gives the new task the order \<open>1\<close>,
  where the maximum existing order plus one is \<open>0\<close>.
\<close>

theorem append_after_negative_orders:
  "executeAddTask exReadFile None 0 (uuidOf idA) NewStore [''task''] ''unshift''
     = Inr (exStore [exTask idA (- 1) []])
   \<and> executeAddTask exReadFile None 0 (uuidOf idB) (exStore [exTask idA (- 1) []]) [''task''] ''add''
       = Inr (exStore [exTask idA (- 1) [], exTask idB 1 []])
   \<and> Max (Order ` set (Tasks (exStore [exTask idA (- 1) []]))) + 1 = 0"
  by (simp add: add_defs example_defs)




section \<open>The pop command\<close>

lemma findLastTask_none_above:
  "\<forall>t \<in> set ts. Order t \<le> m \<Longrightarrow> findLastTask i lastTask m ts = lastTask"
  by (induction ts arbitrary: i) auto

lemma findLastTask_some_above:
  "\<exists>t \<in> set ts. Order t > m \<Longrightarrow>
   \<exists>k < length ts. findLastTask i lastTask m ts = Some (i + k)
      \<and> m < Order (ts ! k) \<and> (\<forall>t \<in> set ts. Order t \<le> Order (ts ! k))"
proof (induction ts arbitrary: i lastTask m)
  case Nil
  then show ?case by simp
next
  case (Cons a ts)
  show ?case
  proof (cases "Order a > m")
    case True
    show ?thesis
    proof (cases "\<exists>t \<in> set ts. Order t > Order a")
      case True
      from Cons.IH [OF True, of "i + 1" "Some i"] obtain k where
        k: "k < length ts" "findLastTask (i + 1) (Some i) (Order a) ts = Some (i + 1 + k)"
           "Order a < Order (ts ! k)" "\<forall>t \<in> set ts. Order t \<le> Order (ts ! k)"
        by blast
      with \<open>Order a > m\<close> have "Suc k < length (a # ts) \<and>
          findLastTask i lastTask m (a # ts) = Some (i + Suc k)
          \<and> m < Order ((a # ts) ! Suc k) \<and> (\<forall>t \<in> set (a # ts). Order t \<le> Order ((a # ts) ! Suc k))"
        by auto
      then show ?thesis by blast
    next
      case False
      then have le: "\<forall>t \<in> set ts. Order t \<le> Order a" by auto
      from findLastTask_none_above [OF le] \<open>Order a > m\<close> le
      have "0 < length (a # ts) \<and> findLastTask i lastTask m (a # ts) = Some (i + 0)
          \<and> m < Order ((a # ts) ! 0) \<and> (\<forall>t \<in> set (a # ts). Order t \<le> Order ((a # ts) ! 0))"
        by auto
      then show ?thesis by blast
    qed
  next
    case False
    with Cons.prems have ex: "\<exists>t \<in> set ts. Order t > m" by auto
    from Cons.IH [OF ex, of "i + 1" lastTask] obtain k where
        k: "k < length ts" "findLastTask (i + 1) lastTask m ts = Some (i + 1 + k)"
           "m < Order (ts ! k)" "\<forall>t \<in> set ts. Order t \<le> Order (ts ! k)"
      by blast
    with False have "Suc k < length (a # ts) \<and>
          findLastTask i lastTask m (a # ts) = Some (i + Suc k)
          \<and> m < Order ((a # ts) ! Suc k) \<and> (\<forall>t \<in> set (a # ts). Order t \<le> Order ((a # ts) ! Suc k))"
      by auto
    then show ?thesis by blast
  qed
qed

text \<open>
  Claim C10. The selection loop of \<open>executePop\<close> starts its running maximum at
  \<open>-1.0\<close>. When some task has an order above \<open>-1\<close>, the loop selects a task
  whose order is maximal (and \<open>pop task --done\<close> marks that task). When the store has
  tasks and all their orders are at most \<open>-1\<close>, as after a single \<open>unshift\<close> into
  the empty store, the loop selects nothing and the command fails with the error for a
  store without tasks.
\<close>

theorem pop_selection:
  "((\<exists>t \<in> set (Tasks store). Order t > - 1) \<longrightarrow>
      (\<exists>li < length (Tasks store).
         findLastTask 0 None (- 1) (Tasks store) = Some li
         \<and> (\<forall>t \<in> set (Tasks store). Order t \<le> Order (Tasks store ! li))
         \<and> executePop now confirmation store [''task'', ''--done'']
             = Inr (store\<lparr>Tasks := (Tasks store)[li := (Tasks store ! li)\<lparr>Done := True, UpdatedAt := now\<rparr>]\<rparr>)))
   \<and> (Tasks store \<noteq> [] \<and> (\<forall>t \<in> set (Tasks store). Order t \<le> - 1)
        \<and> args \<noteq> [] \<and> args ! 0 = ''task''
        \<and> \<not> (''--done'' \<in> set (drop 1 args) \<and> ''--rm'' \<in> set (drop 1 args)) \<longrightarrow>
      findLastTask 0 None (- 1) (Tasks store) = None
      \<and> executePop now confirmation store args = Inl NoTasksFound)"
proof (intro conjI impI)
  assume "\<exists>t \<in> set (Tasks store). Order t > - 1"
  from findLastTask_some_above [OF this, of 0 None] obtain k where
    k: "k < length (Tasks store)" "findLastTask 0 None (- 1) (Tasks store) = Some k"
       "\<forall>t \<in> set (Tasks store). Order t \<le> Order (Tasks store ! k)"
    by auto
  have "executePop now confirmation store [''task'', ''--done'']
             = Inr (store\<lparr>Tasks := (Tasks store)[k := (Tasks store ! k)\<lparr>Done := True, UpdatedAt := now\<rparr>]\<rparr>)"
    by (simp add: executePop_def k(2))
  with k show "\<exists>li < length (Tasks store).
         findLastTask 0 None (- 1) (Tasks store) = Some li
         \<and> (\<forall>t \<in> set (Tasks store). Order t \<le> Order (Tasks store ! li))
         \<and> executePop now confirmation store [''task'', ''--done'']
             = Inr (store\<lparr>Tasks := (Tasks store)[li := (Tasks store ! li)\<lparr>Done := True, UpdatedAt := now\<rparr>]\<rparr>)"
    by blast
next
  assume a: "Tasks store \<noteq> [] \<and> (\<forall>t \<in> set (Tasks store). Order t \<le> - 1)
        \<and> args \<noteq> [] \<and> args ! 0 = ''task''
        \<and> \<not> (''--done'' \<in> set (drop 1 args) \<and> ''--rm'' \<in> set (drop 1 args))"
  then have n: "findLastTask 0 None (- 1) (Tasks store) = None"
    using findLastTask_none_above [of "Tasks store" "- 1" 0 None] by blast
  then show "findLastTask 0 None (- 1) (Tasks store) = None" .
  from a n show "executePop now confirmation store args = Inl NoTasksFound"
    by (auto simp: executePop_def Let_def)
qed

theorem pop_selection_witness:
  "(\<exists>t \<in> set (Tasks (exStore [exTask idA (- 2) [], exTask idB (- 1 / 2) [], exTask idC (- 1) []])). Order t > - 1)
   \<and> executePop 7 [] (exStore [exTask idA (- 2) [], exTask idB (- 1 / 2) [], exTask idC (- 1) []]) [''task'', ''--done'']
       = Inr (exStore [exTask idA (- 2) [], (exTask idB (- 1 / 2) [])\<lparr>Done := True, UpdatedAt := 7\<rparr>, exTask idC (- 1) []])
   \<and> executeAddTask exReadFile None 0 (uuidOf idA) NewStore [''task''] ''unshift'' = Inr (exStore [exTask idA (- 1) []])
   \<and> Tasks (exStore [exTask idA (- 1) []]) \<noteq> []
   \<and> (\<exists>t \<in> set (Tasks (exStore [exTask idA (- 1) []])). Order t \<le> - 1)
   \<and> executePop 7 [] (exStore [exTask idA (- 1) []]) [''task''] = Inl NoTasksFound"
proof -
  let ?s1 = "exStore [exTask idA (- 2) [], exTask idB (- 1 / 2) [], exTask idC (- 1) []]"
  let ?s2 = "exStore [exTask idA (- 1) []]"
  have h1: "\<exists>t \<in> set (Tasks ?s1). Order t > - 1"
    by (simp add: example_defs)
  have h2: "Tasks ?s2 \<noteq> [] \<and> (\<forall>t \<in> set (Tasks ?s2). Order t \<le> - 1)
        \<and> [''task''] \<noteq> [] \<and> [''task''] ! 0 = ''task''
        \<and> \<not> (''--done'' \<in> set (drop 1 [''task'']) \<and> ''--rm'' \<in> set (drop 1 [''task'']))"
    by (simp add: example_defs)
  have u: "executeAddTask exReadFile None 0 (uuidOf idA) NewStore [''task''] ''unshift'' = Inr ?s2"
    by (simp add: add_defs example_defs)
  from pop_selection [where store = ?s1 and now = 7 and confirmation = "[]", THEN conjunct1, rule_format, OF h1]
  obtain li where li: "li < length (Tasks ?s1)"
      "findLastTask 0 None (- 1) (Tasks ?s1) = Some li"
      "executePop 7 [] ?s1 [''task'', ''--done'']
             = Inr (?s1\<lparr>Tasks := (Tasks ?s1)[li := (Tasks ?s1 ! li)\<lparr>Done := True, UpdatedAt := 7\<rparr>]\<rparr>)"
    by blast
  from li(2) have "li = 1" by (simp add: example_defs)
  with li(3) have p1: "executePop 7 [] ?s1 [''task'', ''--done'']
       = Inr (exStore [exTask idA (- 2) [], (exTask idB (- 1 / 2) [])\<lparr>Done := True, UpdatedAt := 7\<rparr>, exTask idC (- 1) []])"
    by (simp add: example_defs)
  from pop_selection [where store = ?s2 and args = "[''task'']" and now = 7 and confirmation = "[]", THEN conjunct2, rule_format, OF h2]
  have p2: "executePop 7 [] ?s2 [''task''] = Inl NoTasksFound" by simp
  have h3: "\<exists>t \<in> set (Tasks ?s2). Order t \<le> - 1"
    by (simp add: example_defs)
  from h2 have h4: "Tasks ?s2 \<noteq> []" by blast
  from h1 h3 h4 u p1 p2 show ?thesis by blast
qed

section \<open>Referential integrity: removing a memo\<close>

lemma firstIndex_None_iff: "firstIndex P xs = None \<longleftrightarrow> (\<forall>x \<in> set xs. \<not> P x)"
  by (induction xs) auto


lemma containsString_iff: "containsString slice s \<longleftrightarrow> s \<in> set slice"
  by (auto simp: containsString_def firstIndex_None_iff)

lemma findTasksReferencingMemo_filter:
  "findTasksReferencingMemo store memoID = filter (\<lambda>t. memoID \<in> set (MemoRefs t)) (Tasks store)"
  by (simp add: findTasksReferencingMemo_def containsString_iff)

lemma printReferencingTasks_all:
  "\<forall>t \<in> set ts. 8 \<le> length (ID t) \<Longrightarrow>
   printReferencingTasks ts = (map (\<lambda>t. ReferencingTask (take 8 (ID t)) (Title t)) ts, False)"
  by (induction ts) auto

text \<open>
  Claim C5. \<open>rm\<close> without a force flag, with an argument that no task answers to and
  that resolves to a memo which some task references: the handler returns an error and
  the store in memory is the store it loaded. It reports the number of referencing
  tasks and then one line per referencing task, in store order; when all their ids
  have the 8 bytes that the report prints, the report is complete and the error is the
  abort of the removal.
\<close>

theorem unforced_memo_removal_rejected:
  assumes "args \<noteq> []"
    and "''-f'' \<notin> set (drop 1 args)" and "''--force'' \<notin> set (drop 1 args)"
    and "lookupTask store (args ! 0) = None"
    and "lookupMemo store (args ! 0) = Some mi"
    and "\<exists>t \<in> set (Tasks store). ID_memo (Memos store ! mi) \<in> set (MemoRefs t)"
  shows "(\<exists>ls e. executeRemove store args = (ls, Some e, store))
    \<and> ((\<forall>t \<in> set (Tasks store).
           ID_memo (Memos store ! mi) \<in> set (MemoRefs t) \<longrightarrow> 8 \<le> length (ID t)) \<longrightarrow>
        executeRemove store args =
          (MemoReferencedBy (length (filter (\<lambda>t. ID_memo (Memos store ! mi) \<in> set (MemoRefs t)) (Tasks store)))
             # map (\<lambda>t. ReferencingTask (take 8 (ID t)) (Title t))
                 (filter (\<lambda>t. ID_memo (Memos store ! mi) \<in> set (MemoRefs t)) (Tasks store)),
           Some MemoRemovalAborted, store))"
proof -
  let ?refs = "filter (\<lambda>t. ID_memo (Memos store ! mi) \<in> set (MemoRefs t)) (Tasks store)"
  from assms(6) have ne: "?refs \<noteq> []"
    by (simp add: filter_empty_conv)
  from assms(2,3) have nf: "\<not> (\<exists>a \<in> set (drop 1 args). a = ''-f'' \<or> a = ''--force'')"
    by auto
  have run: "executeRemove store args =
      (case printReferencingTasks ?refs of
         (ls, panicked) \<Rightarrow>
           (MemoReferencedBy (length ?refs) # ls,
            Some (if panicked then Panic else MemoRemovalAborted), store))"
    using assms(1,4,5) ne nf
    by (simp add: executeRemove_def Let_def findTasksReferencingMemo_filter)
  have a: "\<exists>ls e. executeRemove store args = (ls, Some e, store)"
    by (simp add: run split: prod.splits)
  have b: "executeRemove store args =
          (MemoReferencedBy (length ?refs) # map (\<lambda>t. ReferencingTask (take 8 (ID t)) (Title t)) ?refs,
           Some MemoRemovalAborted, store)"
    if "\<forall>t \<in> set (Tasks store). ID_memo (Memos store ! mi) \<in> set (MemoRefs t) \<longrightarrow> 8 \<le> length (ID t)"
  proof -
    from that have "\<forall>t \<in> set ?refs. 8 \<le> length (ID t)" by simp
    from printReferencingTasks_all [OF this] show ?thesis
      by (simp add: run)
  qed
  from a b show ?thesis by blast
qed

lemmas remove_defs =
  executeRemove_def lookupTask_def lookupMemo_def FindTaskByID_def FindMemoByID_def
  findTasksReferencingMemo_def containsString_def removeMemo_def removeTask_def
  removeFirst_def exMemo_def

theorem unforced_memo_removal_rejected_witness:
  "executeRemove \<lparr>Version = 1, Tasks = [exTask idA 1 [], exTask idB 2 [idMemo]], Memos = [exMemo]\<rparr> [idMemo]
     = ([MemoReferencedBy 1, ReferencingTask ''bbbbbbbb'' ''task''], Some MemoRemovalAborted,
        \<lparr>Version = 1, Tasks = [exTask idA 1 [], exTask idB 2 [idMemo]], Memos = [exMemo]\<rparr>)"
proof -
  let ?s = "\<lparr>Version = 1, Tasks = [exTask idA 1 [], exTask idB 2 [idMemo]], Memos = [exMemo]\<rparr>"
  have h1: "[idMemo] \<noteq> []" by simp
  have h2: "''-f'' \<notin> set (drop 1 [idMemo])" by simp
  have h3: "''--force'' \<notin> set (drop 1 [idMemo])" by simp
  have h4: "lookupTask ?s ([idMemo] ! 0) = None"
    by (simp add: remove_defs example_defs)
  have h5: "lookupMemo ?s ([idMemo] ! 0) = Some 0"
    by (simp add: remove_defs example_defs)
  have h6: "\<exists>t \<in> set (Tasks ?s). ID_memo (Memos ?s ! 0) \<in> set (MemoRefs t)"
    by (simp add: remove_defs example_defs)
  have h7: "\<forall>t \<in> set (Tasks ?s). ID_memo (Memos ?s ! 0) \<in> set (MemoRefs t) \<longrightarrow> 8 \<le> length (ID t)"
    by (simp add: remove_defs example_defs)
  from unforced_memo_removal_rejected [OF h1 h2 h3 h4 h5 h6, THEN conjunct2, THEN mp, OF h7]
  show ?thesis
    by (simp add: remove_defs example_defs)
qed

lemma removeFirst_remove1: "removeFirst (\<lambda>y. y = x) xs = remove1 x xs"
proof (induction xs)
  case Nil
  show ?case by (simp add: removeFirst_def)
next
  case (Cons a xs)
  then show ?case
    by (auto simp: removeFirst_def split: option.splits)
qed

lemma remove1_single: "count_list xs x \<le> 1 \<Longrightarrow> x \<notin> set (remove1 x xs)"
  by (induction xs) (auto simp: count_list_0_iff split: if_splits)

text \<open>\<open>removeMemo\<close> does clear the references of the tasks that hold the id once.\<close>

lemma removeMemo_single_references:
  assumes "t \<in> set (Tasks (removeMemo store id'))"
    and "\<forall>u \<in> set (Tasks store). count_list (MemoRefs u) id' \<le> 1"
  shows "id' \<notin> set (MemoRefs t)"
  using assms by (auto simp: removeMemo_def removeFirst_remove1 remove1_single)

text \<open>
  Claim C1. Forced deletion is to leave the deleted id in no task's references, also
  for a task that held it more than once. \<open>add task -m <id>,<id>\<close> takes the same memo
  id twice and stores both; the loop of \<open>removeMemo\<close> over a task's references breaks after
  the first removal, so \<open>rm -f\<close> removes the memo and leaves the second reference.
\<close>

theorem forced_removal_leaves_duplicate_reference:
  "executeAddTask exReadFile None 0 (uuidOf idA) \<lparr>Version = 1, Tasks = [], Memos = [exMemo]\<rparr>
     [''task'', ''-m'', idMemo @ '','' @ idMemo] ''add''
     = Inr \<lparr>Version = 1, Tasks = [exTask idA 1 [idMemo, idMemo]], Memos = [exMemo]\<rparr>
   \<and> executeRemove \<lparr>Version = 1, Tasks = [exTask idA 1 [idMemo, idMemo]], Memos = [exMemo]\<rparr> [idMemo, ''-f'']
     = ([ForcingRemoval 1, MemoRemoved ''<no title>''], None,
        \<lparr>Version = 1, Tasks = [exTask idA 1 [idMemo]], Memos = []\<rparr>)"
proof -
  have trimmed: "TrimSpace idMemo = idMemo"
    by (simp add: idMemo_def trim_defs)
  have "executeAddTask exReadFile None 0 (uuidOf idA) \<lparr>Version = 1, Tasks = [], Memos = [exMemo]\<rparr>
     [''task'', ''-m'', idMemo @ '','' @ idMemo] ''add''
     = Inr \<lparr>Version = 1, Tasks = [exTask idA 1 [idMemo, idMemo]], Memos = [exMemo]\<rparr>"
    by (simp add: add_defs remove_defs example_defs trimmed [unfolded idMemo_def])
  moreover have "executeRemove \<lparr>Version = 1, Tasks = [exTask idA 1 [idMemo, idMemo]], Memos = [exMemo]\<rparr> [idMemo, ''-f'']
     = ([ForcingRemoval 1, MemoRemoved ''<no title>''], None,
        \<lparr>Version = 1, Tasks = [exTask idA 1 [idMemo]], Memos = []\<rparr>)"
    by (simp add: remove_defs example_defs)
  ultimately show ?thesis by blast
qed

section \<open>The canonical sort\<close>

lemma length_swap [simp]: "length (sortTasksByOrder_swap i ts j) = length ts"
  by (simp add: sortTasksByOrder_swap_def)

lemma mset_swap_step:
  "i < length ts \<Longrightarrow> j < length ts \<Longrightarrow> mset (sortTasksByOrder_swap i ts j) = mset ts"
  by (simp add: sortTasksByOrder_swap_def mset_swap)

text \<open>The inner loop, up to position k.\<close>

lemma inner_invariant:
  assumes "i < length ts" "sortedUpTo i ts" "i < k" "k \<le> length ts"
  shows "length (foldl (sortTasksByOrder_swap i) ts [i + 1 ..< k]) = length ts
       \<and> mset (foldl (sortTasksByOrder_swap i) ts [i + 1 ..< k]) = mset ts
       \<and> sortedUpTo i (foldl (sortTasksByOrder_swap i) ts [i + 1 ..< k])
       \<and> (\<forall>b. i < b \<and> b < k \<longrightarrow>
             Order (foldl (sortTasksByOrder_swap i) ts [i + 1 ..< k] ! i)
               \<le> Order (foldl (sortTasksByOrder_swap i) ts [i + 1 ..< k] ! b))"
  using assms(3,4)
proof (induction k)
  case 0
  then show ?case by simp
next
  case (Suc k)
  show ?case
  proof (cases "i < k")
    case False
    with Suc.prems have "k = i" by simp
    with assms(2) show ?thesis by simp
  next
    case True
    let ?xs = "foldl (sortTasksByOrder_swap i) ts [i + 1 ..< k]"
    from Suc.IH [OF True] Suc.prems have IH:
      "length ?xs = length ts" "mset ?xs = mset ts" "sortedUpTo i ?xs"
      "\<forall>b. i < b \<and> b < k \<longrightarrow> Order (?xs ! i) \<le> Order (?xs ! b)"
      by simp_all
    from True have upt: "[i + 1 ..< Suc k] = [i + 1 ..< k] @ [k]" by simp
    have step: "foldl (sortTasksByOrder_swap i) ts [i + 1 ..< Suc k] = sortTasksByOrder_swap i ?xs k"
      by (simp only: upt foldl_append foldl_Cons foldl_Nil)
    have kl: "k < length ?xs" "i < length ?xs" using Suc.prems IH(1) assms(1) by simp_all
    have m: "mset (sortTasksByOrder_swap i ?xs k) = mset ts"
      using mset_swap_step [OF kl(2) kl(1)] IH(2) by simp
    have s: "sortedUpTo i (sortTasksByOrder_swap i ?xs k)"
      using IH(3) kl True
      by (auto simp: sortedUpTo_def sortTasksByOrder_swap_def nth_list_update)
    have n: "\<forall>b. i < b \<and> b < Suc k \<longrightarrow>
             Order (sortTasksByOrder_swap i ?xs k ! i) \<le> Order (sortTasksByOrder_swap i ?xs k ! b)"
      using IH(4) kl True
      by (auto simp: sortTasksByOrder_swap_def nth_list_update less_Suc_eq)
    from m s n IH(1) show ?thesis
      by (simp only: step length_swap)
  qed
qed

lemma inner_correct:
  assumes "i < length ts" "sortedUpTo i ts"
  shows "length (sortTasksByOrder_inner ts i) = length ts
       \<and> mset (sortTasksByOrder_inner ts i) = mset ts
       \<and> sortedUpTo (Suc i) (sortTasksByOrder_inner ts i)"
proof (cases "Suc i = length ts")
  case True
  then have "sortTasksByOrder_inner ts i = ts"
    by (simp add: sortTasksByOrder_inner_def)
  with assms True show ?thesis
    by (auto simp: sortedUpTo_def less_Suc_eq)
next
  case False
  with assms(1) have "i < length ts" "i < length ts" "length ts \<le> length ts" by simp_all
  from inner_invariant [OF assms(1) assms(2), of "length ts"] False assms(1)
  show ?thesis
    unfolding sortTasksByOrder_inner_def
    by (auto simp: sortedUpTo_def less_Suc_eq)
qed

lemma outer_invariant:
  "n \<le> length ts \<Longrightarrow>
   length (foldl sortTasksByOrder_inner ts [0 ..< n]) = length ts
   \<and> mset (foldl sortTasksByOrder_inner ts [0 ..< n]) = mset ts
   \<and> sortedUpTo n (foldl sortTasksByOrder_inner ts [0 ..< n])"
proof (induction n)
  case 0
  show ?case by (simp add: sortedUpTo_def)
next
  case (Suc n)
  let ?xs = "foldl sortTasksByOrder_inner ts [0 ..< n]"
  from Suc have IH: "length ?xs = length ts" "mset ?xs = mset ts" "sortedUpTo n ?xs"
    by simp_all
  from Suc.prems IH(1) have "n < length ?xs" by simp
  from inner_correct [OF this IH(3)] IH show ?case by simp
qed

lemma sortedUpTo_length_sorted:
  "sortedUpTo (length ts) ts \<Longrightarrow> sorted_wrt (\<lambda>a b. Order a \<le> Order b) ts"
  by (auto simp: sortedUpTo_def sorted_wrt_iff_nth_less)

text \<open>
  Claim C8, the part that fails. The sort exchanges the elements at positions \<open>i\<close> and
  \<open>j\<close>, which may lie far apart, so an element can jump over its equals: of two tasks
  of order \<open>2\<close> followed by a task of order \<open>1\<close>, the first one is exchanged with
  the last one and ends behind the second.
\<close>

theorem sortTasksByOrder_not_stable:
  "map Order [exTask idA 2 [], exTask idB 2 [], exTask idC 1 []] = [2, 2, 1]
   \<and> map ID [exTask idA 2 [], exTask idB 2 [], exTask idC 1 []] = [idA, idB, idC]
   \<and> map ID (sortTasksByOrder [exTask idA 2 [], exTask idB 2 [], exTask idC 1 []]) = [idC, idB, idA]
   \<and> idA \<noteq> idB"
  by (simp add: sortTasksByOrder_def sortTasksByOrder_inner_def sortTasksByOrder_swap_def
        upt_conv_Cons example_defs)

lemma sortTasksByOrder_sorted_mset:
  "sorted_wrt (\<lambda>a b. Order a \<le> Order b) (sortTasksByOrder tasks)
   \<and> mset (sortTasksByOrder tasks) = mset tasks"
proof -
  from outer_invariant [of "length tasks" tasks]
  have "length (sortTasksByOrder tasks) = length tasks"
    and m: "mset (sortTasksByOrder tasks) = mset tasks"
    and s: "sortedUpTo (length tasks) (sortTasksByOrder tasks)"
    by (simp_all add: sortTasksByOrder_def)
  then have "sortedUpTo (length (sortTasksByOrder tasks)) (sortTasksByOrder tasks)" by simp
  from sortedUpTo_length_sorted [OF this] m show ?thesis by blast
qed

text \<open>
  Claim C8 as amended. For every list of tasks, \<open>sortTasksByOrder\<close> returns the same
  tasks (as a multiset) in ascending order of \<open>Order\<close>.
\<close>

theorem sortTasksByOrder_ascending_permutation:
  "sorted_wrt (\<lambda>a b. Order a \<le> Order b) (sortTasksByOrder tasks)
   \<and> mset (sortTasksByOrder tasks) = mset tasks"
  by (rule sortTasksByOrder_sorted_mset)

section \<open>Ordering engine: relative placement\<close>

lemma findPrevTask_absent:
  "\<forall>t \<in> set (tl xs). ID t \<noteq> targetID \<Longrightarrow> findPrevTask xs targetID = None"
  by (induction xs targetID rule: findPrevTask.induct) auto

lemma findNextTask_absent:
  "\<forall>t \<in> set (butlast xs). ID t \<noteq> targetID \<Longrightarrow> findNextTask xs targetID = None"
  by (induction xs targetID rule: findNextTask.induct) auto

lemma distinct_ID_Cons:
  assumes "distinct (map ID (p # xs))" and "t \<in> set xs"
  shows "ID t \<noteq> ID p"
proof
  assume "ID t = ID p"
  with assms(2) have "ID p \<in> ID ` set xs" by (metis imageI)
  with assms(1) show False by simp
qed

lemma findPrevTask_nth:
  "distinct (map ID xs) \<Longrightarrow> k < length xs \<Longrightarrow>
   findPrevTask xs (ID (xs ! k)) = (if k = 0 then None else Some (xs ! (k - 1)))"
proof (induction xs arbitrary: k)
  case Nil
  then show ?case by simp
next
  case (Cons p xs)
  show ?case
  proof (cases k)
    case 0
    from distinct_ID_Cons [OF Cons.prems(1)]
    have "\<forall>t \<in> set (tl (p # xs)). ID t \<noteq> ID p" by simp
    from findPrevTask_absent [OF this] 0 show ?thesis by simp
  next
    case (Suc j)
    with Cons.prems have j: "j < length xs" "distinct (map ID xs)" by auto
    then obtain t tasks where xs: "xs = t # tasks" by (cases xs) auto
    show ?thesis
    proof (cases j)
      case 0
      with Suc xs show ?thesis by simp
    next
      case (Suc i)
      from j(2) xs have "distinct (map ID (t # tasks))" by simp
      from distinct_ID_Cons [OF this, of "tasks ! i"] j(1) xs Suc
      have "ID (xs ! j) \<noteq> ID t" by simp
      with Cons.IH [OF j(2) j(1)] \<open>k = Suc j\<close> Suc xs show ?thesis by simp
    qed
  qed
qed

lemma findNextTask_nth:
  "distinct (map ID xs) \<Longrightarrow> k < length xs \<Longrightarrow>
   findNextTask xs (ID (xs ! k)) = (if k + 1 < length xs then Some (xs ! (k + 1)) else None)"
proof (induction xs arbitrary: k)
  case Nil
  then show ?case by simp
next
  case (Cons t xs)
  show ?case
  proof (cases xs)
    case Nil
    with Cons.prems show ?thesis by simp
  next
    case (Cons n tasks)
    show ?thesis
    proof (cases k)
      case 0
      with Cons show ?thesis by simp
    next
      case (Suc j)
      with Cons.prems have j: "j < length xs" "distinct (map ID xs)" by auto
      with distinct_ID_Cons [OF Cons.prems(1), of "xs ! j"]
      have "ID (xs ! j) \<noteq> ID t" by simp
      with Cons.IH [OF j(2) j(1)] Suc Cons show ?thesis by simp
    qed
  qed
qed

lemma distinct_ID_sort:
  "distinct (map ID tasks) \<Longrightarrow> distinct (map ID (sortTasksByOrder tasks))"
proof -
  assume d: "distinct (map ID tasks)"
  have "mset (map ID (sortTasksByOrder tasks)) = mset (map ID tasks)"
    using sortTasksByOrder_sorted_mset [of tasks] by (metis mset_map)
  from mset_eq_imp_distinct_iff [OF this] d show ?thesis by simp
qed


lemma length_sortTasksByOrder [simp]: "length (sortTasksByOrder tasks) = length tasks"
  using sortTasksByOrder_sorted_mset [of tasks] by (metis size_mset)

lemma executeMove_before:
  assumes "lookupTask store taskID = Some ti" and "lookupTask store targetID = Some gi"
  shows "executeMove ParseFloat now store [taskID, ''before'', targetID] =
           saveOrder now store ti
             (case findPrevTask (sortTasksByOrder (Tasks store)) (ID (Tasks store ! gi)) of
                Some prevTask \<Rightarrow> half64 (add64 (Order prevTask) (Order (Tasks store ! gi)))
              | None \<Rightarrow> sub64 (Order (Tasks store ! gi)) 1)"
  using assms by (simp add: executeMove_def Let_def)

lemma executeMove_after:
  assumes "lookupTask store taskID = Some ti" and "lookupTask store targetID = Some gi"
  shows "executeMove ParseFloat now store [taskID, ''after'', targetID] =
           saveOrder now store ti
             (case findNextTask (sortTasksByOrder (Tasks store)) (ID (Tasks store ! gi)) of
                Some nextTask \<Rightarrow> half64 (add64 (Order (Tasks store ! gi)) (Order nextTask))
              | None \<Rightarrow> add64 (Order (Tasks store ! gi)) 1)"
  using assms by (simp add: executeMove_def Let_def)

text \<open>
  Claim C3 as amended. With task ids that are pairwise different, let \<open>k\<close> be the
  position of the target in the sorted copy of all tasks. \<open>mv before\<close> takes the task
  at position \<open>k - 1\<close> of that copy as the predecessor and \<open>mv after\<close> the task at
  position \<open>k + 1\<close> as the successor, whichever task that is: the moved task is in the
  copy and is not skipped, so when it is the target's neighbour its own old order enters
  the midpoint. Without a neighbour the new order is the target's order minus or plus one.
  The midpoint, the difference and the sum are those of \<open>float64\<close>, and the outcome is
  saved as the moved task's order.
\<close>

theorem move_neighbour_in_full_sorted_set:
  assumes "distinct (map ID (Tasks store))"
    and "lookupTask store taskID = Some ti"
    and "lookupTask store targetID = Some gi"
    and "k < length (Tasks store)"
    and "sortTasksByOrder (Tasks store) ! k = Tasks store ! gi"
  shows "executeMove ParseFloat now store [taskID, ''before'', targetID]
           = saveOrder now store ti
               (if k = 0 then sub64 (Order (Tasks store ! gi)) 1
                else half64 (add64 (Order (sortTasksByOrder (Tasks store) ! (k - 1)))
                               (Order (Tasks store ! gi))))
       \<and> executeMove ParseFloat now store [taskID, ''after'', targetID]
           = saveOrder now store ti
               (if k + 1 < length (Tasks store)
                then half64 (add64 (Order (Tasks store ! gi))
                               (Order (sortTasksByOrder (Tasks store) ! (k + 1))))
                else add64 (Order (Tasks store ! gi)) 1)"
proof -
  let ?S = "sortTasksByOrder (Tasks store)"
  have d: "distinct (map ID ?S)" by (rule distinct_ID_sort [OF assms(1)])
  have k: "k < length ?S" using assms(4) by simp
  from findPrevTask_nth [OF d k] assms(5)
  have p: "findPrevTask ?S (ID (Tasks store ! gi)) = (if k = 0 then None else Some (?S ! (k - 1)))"
    by simp
  from findNextTask_nth [OF d k] assms(5)
  have n: "findNextTask ?S (ID (Tasks store ! gi))
             = (if k + 1 < length (Tasks store) then Some (?S ! (k + 1)) else None)"
    by simp
  show ?thesis
    by (simp add: executeMove_before [OF assms(2,3)] executeMove_after [OF assms(2,3)] p n)
qed

lemmas sort_defs =
  sortTasksByOrder_def sortTasksByOrder_inner_def sortTasksByOrder_swap_def upt_conv_Cons

lemmas move_defs =
  executeMove_def lookupTask_def FindTaskByID_def setOrder_def saveOrder_def sort_defs
  add64_def sub64_def half64_def round64_values

theorem move_neighbour_in_full_sorted_set_witness:
  "sortTasksByOrder (Tasks (exStore [exTask idM 2 [], exTask idB 3 [], exTask idA 1 []])) ! 1
     = Tasks (exStore [exTask idM 2 [], exTask idB 3 [], exTask idA 1 []]) ! 0
   \<and> executeMove exParseFloat 0 (exStore [exTask idM 2 [], exTask idB 3 [], exTask idA 1 []])
        [idM, ''before'', idB]
       = Inr (exStore [exTask idM (5 / 2) [], exTask idB 3 [], exTask idA 1 []])
   \<and> executeMove exParseFloat 0 (exStore [exTask idM 2 [], exTask idB 3 [], exTask idA 1 []])
        [idM, ''after'', idA]
       = Inr (exStore [exTask idM (3 / 2) [], exTask idB 3 [], exTask idA 1 []])"
proof -
  let ?s = "exStore [exTask idM 2 [], exTask idB 3 [], exTask idA 1 []]"
  have d: "distinct (map ID (Tasks ?s))" by (simp add: example_defs)
  have lm: "lookupTask ?s idM = Some 0" by (simp add: move_defs example_defs)
  have lb: "lookupTask ?s idB = Some 1" by (simp add: move_defs example_defs)
  have la: "lookupTask ?s idA = Some 2" by (simp add: move_defs example_defs)
  have srt: "sortTasksByOrder (Tasks ?s) = [exTask idA 1 [], exTask idM 2 [], exTask idB 3 []]"
    by (simp add: sort_defs example_defs)
  have kb: "2 < length (Tasks ?s)" and ka: "0 < length (Tasks ?s)"
    by (simp_all add: example_defs)
  have pb: "sortTasksByOrder (Tasks ?s) ! 2 = Tasks ?s ! 1"
    by (simp add: srt) (simp add: example_defs)
  have pa: "sortTasksByOrder (Tasks ?s) ! 0 = Tasks ?s ! 2"
    by (simp add: srt) (simp add: example_defs)
  have mover: "sortTasksByOrder (Tasks ?s) ! 1 = Tasks ?s ! 0"
    by (simp add: srt) (simp add: example_defs)
  from move_neighbour_in_full_sorted_set [OF d lm lb kb pb, of exParseFloat 0, THEN conjunct1]
  have before: "executeMove exParseFloat 0 ?s [idM, ''before'', idB]
       = Inr (exStore [exTask idM (5 / 2) [], exTask idB 3 [], exTask idA 1 []])"
    by (simp add: srt)
       (simp add: example_defs setOrder_def saveOrder_def add64_def half64_def round64_values)
  from move_neighbour_in_full_sorted_set [OF d lm la ka pa, of exParseFloat 0, THEN conjunct2]
  have after: "executeMove exParseFloat 0 ?s [idM, ''after'', idA]
       = Inr (exStore [exTask idM (3 / 2) [], exTask idB 3 [], exTask idA 1 []])"
    by (simp add: srt)
       (simp add: example_defs setOrder_def saveOrder_def add64_def half64_def round64_values)
  from mover before after show ?thesis by blast
qed

text \<open>
  Claim C3, the part that fails. Tasks A, M, B have the orders 1, 2, 3 and M is moved
  before B: the predecessor that the loop finds is M itself, and M gets the midpoint of
  its own old order and B's, \<open>5/2\<close>, not the midpoint \<open>2\<close> of A and B.
\<close>

theorem move_before_takes_mover_as_predecessor:
  "findPrevTask (sortTasksByOrder [exTask idA 1 [], exTask idM 2 [], exTask idB 3 []]) idB
     = Some (exTask idM 2 [])
   \<and> executeMove exParseFloat 0 (exStore [exTask idA 1 [], exTask idM 2 [], exTask idB 3 []])
        [idM, ''before'', idB]
       = Inr (exStore [exTask idA 1 [], exTask idM (5 / 2) [], exTask idB 3 []])
   \<and> (5 / 2 :: real) = (2 + 3) / 2 \<and> (5 / 2 :: real) \<noteq> (1 + 3) / 2"
  by (simp add: move_defs example_defs)







text \<open>The sum of two orders can be too large for a \<open>float64\<close>: the midpoint is then not
  finite.\<close>

lemma midpoint_overflow:
  assumes "2 ^ 1023 \<le> a" and "2 ^ 1023 \<le> b"
  shows "half64 (add64 a b) = NonFinite"
proof -
  have "(2::real) ^ 1024 = 2 ^ 1023 + 2 ^ 1023" by simp
  with assms have "2 ^ 1024 \<le> \<bar>a + b\<bar>" by linarith
  from round64_overflow [OF this] show ?thesis
    by (simp add: add64_def half64_def)
qed




section \<open>Markdown ingestion\<close>

text \<open>
  Claim C7. The first heading is to give the title and to be the only line removed;
  later lines of the form \<open># text\<close> are to stay in the description. \<open>parseMarkdown\<close>
  takes the title from the first match and then replaces every match of the title
  pattern by the empty string (\<open>ReplaceAllString\<close>), so the later heading \<open># B\<close> of
  the document below is gone from the description as well.
\<close>

theorem later_heading_lines_removed:
  "parseMarkdown 0 exUUID NewStore ''# A\<newline>first\<newline># B\<newline>second\<newline>'' ''untitled''
   = Inr (\<lparr>ID = idA, Title = ''A'', Description = ''first\<newline>\<newline>second'',
           Order = 1, Done = False, MemoRefs = [], CreatedAt = 0, UpdatedAt = 0\<rparr>, [])"
  by (simp add: markdown_defs exUUID_def NewStore_def) (simp add: trim_defs)

text \<open>
  Claim C6. A document that consists of the heading \<open># Title\<close> and one memo block
  with the body \<open>X\<close> is to yield one memo whose content is \<open>X\<close>. The replacement of
  every match of the title pattern (the defect of claim C7) also reaches into the memo
  block, before the block is extracted: with the body of the two lines \<open># install\<close>
  and \<open>make\<close>, the first body line is blanked and the memo's content is an empty line
  followed by \<open>make\<close>.
\<close>

theorem memo_body_heading_line_blanked:
  "parseMarkdown 0 exUUID NewStore ''# Title\<newline>```memo\<newline># install\<newline>make\<newline>```\<newline>'' ''untitled''
     = Inr (\<lparr>ID = idB, Title = ''Title'', Description = memoRef idA, Order = 1, Done = False,
             MemoRefs = [idA], CreatedAt = 0, UpdatedAt = 0\<rparr>,
            [\<lparr>ID_memo = idA, Title_memo = None, Content = ''\<newline>make'',
              CreatedAt_memo = 0, UpdatedAt_memo = 0\<rparr>])
   \<and> ''\<newline>make'' \<noteq> ''# install\<newline>make''"
  by (simp add: markdown_defs exUUID_def NewStore_def) (simp add: trim_defs example_defs)

subsection \<open>A heading and one memo block whose body has no heading line\<close>

lemma splitLines_nonempty: "splitLines s \<noteq> []"
  by (induction s) (auto split: list.splits)

lemma splitLines_no_newline:
  "newline \<notin> set a \<Longrightarrow> splitLines (a @ newline # b) = a # splitLines b"
  by (induction a) auto

lemma splitLines_append: "splitLines (a @ newline # b) = splitLines a @ splitLines b"
proof (induction a)
  case Nil
  show ?case by simp
next
  case (Cons c a)
  obtain l ls where "splitLines a = l # ls"
    using splitLines_nonempty [of a] by (cases "splitLines a") auto
  with Cons show ?case by simp
qed

lemma splitLines_blank: "set (splitLines (replicate n newline)) = {[]}"
  by (induction n) auto

lemma joinLines_Cons: "ls \<noteq> [] \<Longrightarrow> joinLines (l # ls) = l @ newline # joinLines ls"
  by (cases ls) auto

lemma joinLines_splitLines: "joinLines (splitLines s) = s"
proof (induction s)
  case Nil
  show ?case by simp
next
  case (Cons c s)
  obtain l ls where ls: "splitLines s = l # ls"
    using splitLines_nonempty [of s] by (cases "splitLines s") auto
  show ?case
  proof (cases "c = newline")
    case True
    with Cons ls show ?thesis by simp
  next
    case False
    with Cons ls show ?thesis by (cases ls) auto
  qed
qed

lemma title_stage:
  assumes "title \<noteq> []" and "newline \<notin> set title"
    and "\<forall>l \<in> set (splitLines rest). \<not> isTitleLine l"
  shows "titleRegex_FindStringSubmatch (''# '' @ title @ newline # rest) = Some title"
    and "titleRegex_ReplaceAllString (''# '' @ title @ newline # rest) = newline # rest"
proof -
  from assms(2) have "newline \<notin> set (''# '' @ title)"
    by (simp add: newline_def)
  from splitLines_no_newline [OF this, of rest]
  have lines: "splitLines (''# '' @ title @ newline # rest) = (''# '' @ title) # splitLines rest"
    by simp
  from assms(1) have h: "isTitleLine (''# '' @ title)"
    by (simp add: isTitleLine_def)
  show "titleRegex_FindStringSubmatch (''# '' @ title @ newline # rest) = Some title"
    unfolding titleRegex_FindStringSubmatch_def lines using h by simp
  from assms(3) have "map (\<lambda>l. if isTitleLine l then [] else l) (splitLines rest) = splitLines rest"
    by (simp add: map_idI)
  then show "titleRegex_ReplaceAllString (''# '' @ title @ newline # rest) = newline # rest"
    unfolding titleRegex_ReplaceAllString_def lines using h
    by (simp add: joinLines_Cons splitLines_nonempty joinLines_splitLines)
qed

text \<open>The lines of the text after the heading: blank lines, the opening fence, the
  lines of the body, the closing fence, blank lines.\<close>

lemma block_lines:
  assumes "\<forall>l \<in> set (splitLines x). \<not> isTitleLine l"
  shows "\<forall>l \<in> set (splitLines (replicate n newline @ memoOpen @ x @ memoClose @ replicate m newline)).
           \<not> isTitleLine l"
proof -
  let ?tail = "replicate m newline"
  have blank: "\<not> isTitleLine []" by (simp add: isTitleLine_def)
  have fence: "\<forall>l \<in> set (splitLines (''```'' @ ?tail)). \<not> isTitleLine l"
  proof (cases m)
    case 0
    then show ?thesis by (simp add: newline_def isTitleLine_def)
  next
    case (Suc k)
    have "newline \<notin> set ''```''" by (simp add: newline_def)
    from splitLines_no_newline [OF this, of "replicate k newline"] Suc
    have "splitLines (''```'' @ ?tail) = ''```'' # splitLines (replicate k newline)"
      by simp
    with splitLines_blank [of k] blank show ?thesis
      by (auto simp: isTitleLine_def)
  qed
  have "newline \<notin> set ''```memo''" by (simp add: newline_def)
  from splitLines_no_newline [OF this, of "x @ memoClose @ ?tail"]
  have "splitLines (memoOpen @ x @ memoClose @ ?tail)
          = ''```memo'' # splitLines (x @ newline # ''```'' @ ?tail)"
    by (simp add: memoOpen_def memoClose_def)
  also have "splitLines (x @ newline # ''```'' @ ?tail) = splitLines x @ splitLines (''```'' @ ?tail)"
    by (rule splitLines_append)
  finally have block: "\<forall>l \<in> set (splitLines (memoOpen @ x @ memoClose @ ?tail)). \<not> isTitleLine l"
    using assms fence by (auto simp: isTitleLine_def)
  show ?thesis
  proof (induction n)
    case 0
    from block show ?case by simp
  next
    case (Suc n)
    with blank show ?case by simp
  qed
qed

lemma Index_at_start: "p \<noteq> [] \<Longrightarrow> Index (p @ r) p = Some 0"
  by (cases p) auto

lemma Index_after_blank:
  "p \<noteq> [] \<Longrightarrow> hd p \<noteq> newline \<Longrightarrow>
   Index (replicate n newline @ s) p = map_option (\<lambda>k. n + k) (Index s p)"
proof (induction n)
  case 0
  show ?case by (simp add: option.map_ident)
next
  case (Suc n)
  from Suc.prems have "\<not> prefix p (newline # replicate n newline @ s)"
    by (cases p) auto
  with Suc show ?case by (simp add: option.map_comp comp_def)
qed

lemma prefix_nth: "prefix p z \<Longrightarrow> i < length p \<Longrightarrow> p ! i = z ! i"
  by (auto simp: prefix_def nth_append)

text \<open>An occurrence of \<open>c # q\<close> that starts inside \<open>y\<close> cannot run over into a
  following \<open>c # q\<close> when \<open>c\<close> does not occur in \<open>q\<close>.\<close>

lemma no_straddle:
  assumes "prefix (c # q) (y @ (c # q) @ r)" and "c \<notin> set q" and "y \<noteq> []"
  shows "prefix (c # q) y"
proof (cases "length (c # q) \<le> length y")
  case True
  from assms(1) have "prefix (c # q) y \<or> (\<exists>us. c # q = y @ us \<and> prefix us ((c # q) @ r))"
    by (simp only: prefix_append)
  then show ?thesis
  proof
    assume "prefix (c # q) y"
    then show ?thesis .
  next
    assume "\<exists>us. c # q = y @ us \<and> prefix us ((c # q) @ r)"
    then obtain us where us: "c # q = y @ us" by blast
    then have "length (c # q) = length y + length us" by (metis length_append)
    with True have "us = []" by simp
    with us show ?thesis by simp
  qed
next
  case False
  then have l: "length y < length (c # q)" by simp
  from prefix_nth [OF assms(1) l] have "(c # q) ! length y = c"
    by (simp add: nth_append)
  moreover from assms(3) l have "(c # q) ! length y \<in> set q"
    by (cases "length y") auto
  ultimately show ?thesis using assms(2) by simp
qed

lemma Index_after:
  assumes "c \<notin> set q"
  shows "Index x (c # q) = None \<Longrightarrow> Index (x @ (c # q) @ r) (c # q) = Some (length x)"
proof (induction x)
  case Nil
  show ?case using Index_at_start [of "c # q" r] by simp
next
  case (Cons a x)
  from Cons.prems have np: "\<not> prefix (c # q) (a # x)" and n: "Index x (c # q) = None"
    by (auto split: if_splits)
  have "\<not> prefix (c # q) ((a # x) @ (c # q) @ r)"
    using no_straddle [of c q "a # x" r] assms np by blast
  with Cons.IH [OF n] show ?case by simp
qed

lemma memo_stage:
  assumes "Index x memoClose = None"
  shows "memoRegex_FindAllStringSubmatch
           (replicate n newline @ memoOpen @ x @ memoClose @ replicate m newline)
           = [(memoOpen @ x @ memoClose, x)]"
proof -
  let ?tail = "replicate m newline"
  let ?s = "replicate n newline @ memoOpen @ x @ memoClose @ ?tail"
  have o: "memoOpen \<noteq> []" "hd memoOpen \<noteq> newline"
    by (simp_all add: memoOpen_def newline_def)
  have "newline \<notin> set ''```''" by (simp add: newline_def)
  from Index_after [OF this, of x ?tail] assms
  have close: "Index (x @ memoClose @ ?tail) memoClose = Some (length x)"
    by (simp add: memoClose_def)
  have opn: "Index ?s memoOpen = Some n"
    by (simp add: Index_after_blank [OF o] Index_at_start [OF o(1)])
  have rest: "drop (n + length memoOpen) ?s = x @ memoClose @ ?tail" by simp
  have "Index (?tail @ []) memoOpen = None"
    by (simp only: Index_after_blank [OF o]) (simp add: memoOpen_def)
  then have tl: "memoRegex_FindAllStringSubmatch ?tail = []"
    by (simp add: memoRegex_FindAllStringSubmatch.simps [of ?tail])
  show ?thesis
    by (subst memoRegex_FindAllStringSubmatch.simps, simp only: opn option.case rest close)
       (simp add: tl)
qed

lemma replace_stage:
  "Replace1 (replicate n newline @ memoOpen @ x @ memoClose @ tail) (memoOpen @ x @ memoClose) ref
     = replicate n newline @ ref @ tail"
proof -
  let ?s = "replicate n newline @ memoOpen @ x @ memoClose @ tail"
  let ?m = "memoOpen @ x @ memoClose"
  have o: "?m \<noteq> []" "hd ?m \<noteq> newline"
    by (simp_all add: memoOpen_def newline_def)
  have "Index (replicate n newline @ ?m @ tail) ?m = Some n"
    by (simp only: Index_after_blank [OF o] Index_at_start [OF o(1)]) simp
  then have idx: "Index ?s ?m = Some n" by simp
  show ?thesis unfolding Replace1_def idx option.case by simp
qed

lemma TrimLeft_blank: "TrimLeft (replicate n newline @ s) = TrimLeft s"
proof (induction n)
  case 0
  show ?case by simp
next
  case (Suc n)
  have "TrimLeft (newline # replicate n newline @ s) = TrimLeft (replicate n newline @ s)"
    by (subst TrimLeft.simps) (simp add: whiteSpace_def newline_def)
  with Suc show ?case by simp
qed

lemma TrimLeft_memoRef: "TrimLeft (memoRef memoID @ s) = memoRef memoID @ s"
  by (subst TrimLeft.simps) (simp add: whiteSpace_def memoRef_def)

lemma TrimRight_blank: "TrimRight (s @ replicate m newline) = TrimRight s"
proof (induction m)
  case 0
  show ?case by simp
next
  case (Suc m)
  have "TrimRight ((s @ replicate m newline) @ [newline]) = TrimRight (s @ replicate m newline)"
    by (subst TrimRight.simps) (simp add: whiteSpace_def newline_def suffix_to_prefix)
  with Suc show ?case by (simp add: replicate_append_same)
qed

lemma TrimRight_memoRef: "TrimRight (memoRef memoID) = memoRef memoID"
  by (subst TrimRight.simps) (simp add: whiteSpace_def memoRef_def suffix_to_prefix)

lemma trim_stage:
  "TrimSpace (replicate n newline @ memoRef memoID @ replicate m newline) = memoRef memoID"
  by (simp only: TrimSpace_def TrimLeft_blank TrimLeft_memoRef TrimRight_blank TrimRight_memoRef)

text \<open>
  The document is the heading \<open># title\<close>, any number of blank lines, one memo block
  with the body \<open>x\<close>, and any number of line feeds after the closing fence. The title
  is not empty and has no line feed. When the body has no line of the form \<open># text\<close>
  (and, being the body of the block, no line feed followed by three backquotes),
  ingestion yields one task with that title and one memo whose content is \<open>x\<close>; the
  task's description is the reference marker with the memo's id, and its references are
  that one id.
\<close>

lemma ingest_heading_and_memo_block:
  assumes "title \<noteq> []" and "newline \<notin> set title"
    and "\<forall>l \<in> set (splitLines x). \<not> isTitleLine l"
    and "Index x memoClose = None"
    and "uuid 0 = Some memoID" and "uuid 1 = Some taskID"
    and "add64 (GetMaxTaskOrder store) 1 = Finite v"
  shows "parseMarkdown now uuid store
           (''# '' @ title @ newline # replicate n newline @ memoOpen @ x @ memoClose
              @ replicate m newline)
           defaultTitle
         = Inr (\<lparr>ID = taskID, Title = title, Description = memoRef memoID,
                 Order = v, Done = False, MemoRefs = [memoID],
                 CreatedAt = now, UpdatedAt = now\<rparr>,
                [\<lparr>ID_memo = memoID, Title_memo = None, Content = x,
                  CreatedAt_memo = now, UpdatedAt_memo = now\<rparr>])"
proof -
  let ?block = "memoOpen @ x @ memoClose @ replicate m newline"
  let ?rest = "replicate n newline @ ?block"
  from block_lines [OF assms(3)]
  have nt: "\<forall>l \<in> set (splitLines ?rest). \<not> isTitleLine l" .
  note p1 = title_stage(1) [OF assms(1,2) nt]
  have p2: "titleRegex_ReplaceAllString (''# '' @ title @ newline # ?rest)
              = replicate (Suc n) newline @ ?block"
    unfolding title_stage(2) [OF assms(1,2) nt] by simp
  note p3 = memo_stage [OF assms(4), of "Suc n" m]
  have p4: "replaceMemoBlocks now uuid 0 [(memoOpen @ x @ memoClose, x)]
              (replicate (Suc n) newline @ ?block)
              = Inr ([NewMemo now memoID None x],
                     replicate (Suc n) newline @ memoRef memoID @ replicate m newline)"
    using replace_stage [of "Suc n" x "replicate m newline" "memoRef memoID"]
    by (simp add: assms(5))
  note p5 = trim_stage [of "Suc n" memoID m]
  show ?thesis
    unfolding parseMarkdown_def Let_def p1 p2 p3 option.case p4 sum.case prod.case p5
    using assms(6,7) by (simp add: NewTask_def NewMemo_def)
qed

end
